theory Spec2Isabelle
  imports Main "HOL-Library.Multiset"
begin

section \<open>The SAT encoding of Sudoku (main.py)\<close>

text \<open>
  The program numbers the 729 propositions "cell (i, j) holds digit d", builds the
  clauses every completed Sudoku satisfies, adds one unit clause per clue of a puzzle,
  calls an external SAT solver and reads the digits back from the solver's answer.
  Python's integers are unbounded, so they are modelled by \<open>int\<close>.
\<close>

subsection \<open>Python values and control\<close>

datatype error = IndexError | TypeError | AssertionError | NameError

text \<open>\<open>range(a, b)\<close> on integers.\<close>

definition range_py :: "int \<Rightarrow> int \<Rightarrow> int list" where
  "range_py a b = [a..b - 1]"

text \<open>
  A \<open>for\<close> loop whose body may raise: the loop threads the mutable state through the
  iterations and stops at the first exception, keeping the state reached so far (an
  object mutated in place stays mutated when the exception leaves the loop).
\<close>

fun for_each :: "('a \<Rightarrow> 's \<Rightarrow> error option \<times> 's) \<Rightarrow> 'a list \<Rightarrow> 's \<Rightarrow> error option \<times> 's" where
  "for_each body [] s = (None, s)"
| "for_each body (x # xs) s =
     (case body x s of
        (Some e, s') \<Rightarrow> (Some e, s')
      | (None, s') \<Rightarrow> for_each body xs s')"

subsection \<open>Variable numbering\<close>

definition v :: "int \<Rightarrow> int \<Rightarrow> int \<Rightarrow> int" where
  "v i j d = 81 * (i - 1) + 9 * (j - 1) + d"

subsection \<open>The puzzle-independent clauses\<close>

type_synonym clause = "int list"

text \<open>
  The body of the first double loop of \<open>sudoku_clauses\<close> for one cell: one clause with
  the nine digits, then one clause for every pair \<open>d < dp\<close> of digits. \<open>res\<close> is the
  list the source appends to.
\<close>

definition cell_clauses :: "int \<Rightarrow> int \<Rightarrow> clause list \<Rightarrow> clause list" where
  "cell_clauses i j res =
     fold (\<lambda>d r. fold (\<lambda>dp r'. r' @ [[- v i j d, - v i j dp]]) (range_py (d + 1) 10) r)
       (range_py 1 10)
       (res @ [map (\<lambda>d. v i j d) (range_py 1 10)])"

text \<open>The inner function \<open>valid(cells)\<close>, appending to \<open>res\<close>.\<close>

definition valid :: "(int \<times> int) list \<Rightarrow> clause list \<Rightarrow> clause list" where
  "valid cells res =
     fold (\<lambda>(i, xi) r.
        fold (\<lambda>(j, xj) r'.
           if i < j
           then fold (\<lambda>d r''. r'' @ [[- v (fst xi) (snd xi) d, - v (fst xj) (snd xj) d]])
                  (range_py 1 10) r'
           else r')
          (enumerate 0 cells) r)
       (enumerate 0 cells) res"

definition row_cells :: "int \<Rightarrow> (int \<times> int) list" where
  "row_cells i = map (\<lambda>j. (i, j)) (range_py 1 10)"

definition col_cells :: "int \<Rightarrow> (int \<times> int) list" where
  "col_cells i = map (\<lambda>j. (j, i)) (range_py 1 10)"

definition box_cells :: "int \<Rightarrow> int \<Rightarrow> (int \<times> int) list" where
  "box_cells i j = map (\<lambda>k. (i + k mod 3, j + k div 3)) (range_py 0 9)"

text \<open>The list \<open>res\<close> as it stands before the final assertion.\<close>

definition built_clauses :: "clause list" where
  "built_clauses =
     (let res = fold (\<lambda>i r. fold (\<lambda>j r'. cell_clauses i j r') (range_py 1 10) r)
                  (range_py 1 10) [];
          res = fold (\<lambda>i r. valid (col_cells i) (valid (row_cells i) r)) (range_py 1 10) res;
          res = fold (\<lambda>i r. fold (\<lambda>j r'. valid (box_cells i j) r') [1, 4, 7] r) [1, 4, 7] res
      in res)"

definition sudoku_clauses :: "error + clause list" where
  "sudoku_clauses =
     (if length built_clauses = 81 * (1 + 36) + 27 * 324 then Inr built_clauses
      else Inl AssertionError)"

subsection \<open>Grids\<close>

text \<open>
  A grid is a Python list of rows, each a list of cells; a cell holds an integer or
  \<open>None\<close> (which is what \<open>read_cell\<close> returns when its loop finds nothing). The rows
  are taken to be distinct objects, as in a nested list literal, so that a store into one
  row leaves the others alone.
\<close>

type_synonym cell = "int option"

type_synonym grid = "cell list list"

text \<open>\<open>xs[k]\<close> and \<open>xs[k] = x\<close>: a negative index counts from the end, an index
  outside the list raises \<open>IndexError\<close>.\<close>

definition py_index :: "'a list \<Rightarrow> int \<Rightarrow> nat option" where
  "py_index xs k =
     (if 0 \<le> k \<and> k < int (length xs) then Some (nat k)
      else if k < 0 \<and> - int (length xs) \<le> k then Some (nat (k + int (length xs)))
      else None)"

definition getitem :: "'a list \<Rightarrow> int \<Rightarrow> error + 'a" where
  "getitem xs k = (case py_index xs k of None \<Rightarrow> Inl IndexError | Some n \<Rightarrow> Inr (xs ! n))"

definition setitem :: "'a list \<Rightarrow> int \<Rightarrow> 'a \<Rightarrow> error + 'a list" where
  "setitem xs k x =
     (case py_index xs k of None \<Rightarrow> Inl IndexError | Some n \<Rightarrow> Inr (xs[n := x]))"

text \<open>The truth value \<open>if d:\<close> tests: \<open>None\<close> and \<open>0\<close> are false.\<close>

definition truthy :: "cell \<Rightarrow> bool" where
  "truthy c = (case c of None \<Rightarrow> False | Some d \<Rightarrow> d \<noteq> 0)"

subsection \<open>The solver\<close>

text \<open>
  \<open>pycosat.solve\<close> is not part of the program: it is a parameter of the model. It
  returns a list of literals, or one of the strings \<open>"UNSAT"\<close> and \<open>"UNKNOWN"\<close>. A call
  that raises instead of answering (as it does on a clause with the literal 0) has no
  counterpart here, so what is proved of \<open>solve\<close> is stated for a given answer of the
  solver.
\<close>

datatype solution = Model "int list" | UNSAT | UNKNOWN

type_synonym solver = "clause list \<Rightarrow> solution"

text \<open>\<open>x in sol\<close> for an integer \<open>x\<close>: membership in a list; on a string Python 2 raises
  \<open>TypeError\<close> (the left operand of \<open>in\<close> on a string must be a string).\<close>

definition py_in :: "int \<Rightarrow> solution \<Rightarrow> error + bool" where
  "py_in x sol = (case sol of Model m \<Rightarrow> Inr (x \<in> set m) | UNSAT \<Rightarrow> Inl TypeError
     | UNKNOWN \<Rightarrow> Inl TypeError)"

subsection \<open>solve\<close>

text \<open>The body of the clue loop for the cell \<open>(i, j)\<close>; the state is \<open>clauses\<close>.\<close>

definition add_clue :: "grid \<Rightarrow> int \<Rightarrow> int \<Rightarrow> clause list \<Rightarrow> error option \<times> clause list" where
  "add_clue grid i j clauses =
     (case getitem grid (i - 1) of
        Inl e \<Rightarrow> (Some e, clauses)
      | Inr row \<Rightarrow>
          (case getitem row (j - 1) of
             Inl e \<Rightarrow> (Some e, clauses)
           | Inr c \<Rightarrow>
               if truthy c then (None, clauses @ [[v i j (the c)]]) else (None, clauses)))"

text \<open>Lines 77 to 87 of \<open>solve\<close>: the clause list handed to the solver.\<close>

definition instance_clauses :: "grid \<Rightarrow> error + clause list" where
  "instance_clauses grid =
     (case sudoku_clauses of
        Inl e \<Rightarrow> Inl e
      | Inr clauses \<Rightarrow>
          (case for_each (\<lambda>i. for_each (\<lambda>j. add_clue grid i j) (range_py 1 10))
                  (range_py 1 10) clauses of
             (Some e, _) \<Rightarrow> Inl e
           | (None, clauses') \<Rightarrow> Inr clauses'))"

text \<open>\<open>read_cell(i, j)\<close>: the loop over the digits, returning at the first hit and
  \<open>None\<close> when the loop ends.\<close>

fun read_cell_loop :: "solution \<Rightarrow> int \<Rightarrow> int \<Rightarrow> int list \<Rightarrow> error + cell" where
  "read_cell_loop sol i j [] = Inr None"
| "read_cell_loop sol i j (d # ds) =
     (case py_in (v i j d) sol of
        Inl e \<Rightarrow> Inl e
      | Inr b \<Rightarrow> if b then Inr (Some d) else read_cell_loop sol i j ds)"

definition read_cell :: "solution \<Rightarrow> int \<Rightarrow> int \<Rightarrow> error + cell" where
  "read_cell sol i j = read_cell_loop sol i j (range_py 1 10)"

text \<open>\<open>grid[i - 1][j - 1] = read_cell(i, j)\<close>: the right-hand side is evaluated first.
  The loops call it with \<open>i\<close> in 1..9 only, so the row index \<open>i - 1\<close> is never negative.\<close>

definition store_cell :: "solution \<Rightarrow> int \<Rightarrow> int \<Rightarrow> grid \<Rightarrow> error option \<times> grid" where
  "store_cell sol i j grid =
     (case read_cell sol i j of
        Inl e \<Rightarrow> (Some e, grid)
      | Inr c \<Rightarrow>
          (case getitem grid (i - 1) of
             Inl e \<Rightarrow> (Some e, grid)
           | Inr row \<Rightarrow>
               (case setitem row (j - 1) c of
                  Inl e \<Rightarrow> (Some e, grid)
                | Inr row' \<Rightarrow> (None, grid[nat (i - 1) := row']))))"

definition single_solve_count :: int where
  "single_solve_count = 1"

text \<open>The timing loop: \<open>sol\<close> is bound by the last of the \<open>single_solve_count\<close> calls
  (and stays unbound when there is none, which \<open>read_cell\<close> would meet as a
  \<open>NameError\<close>).\<close>

definition run_solver :: "solver \<Rightarrow> clause list \<Rightarrow> solution option" where
  "run_solver S clauses = fold (\<lambda>m sol. Some (S clauses)) (range_py 0 single_solve_count) None"

text \<open>
  \<open>solve(grid, current_number)\<close>. The result is the exception that left the call, if
  any, and the caller's grid as the call leaves it. The elapsed times themselves are not
  modelled; what is kept of the bookkeeping is that \<open>solve_time\<close> has 82 entries, so that
  \<open>solve_time[current_number]\<close> raises for an index outside \<open>-82..81\<close>.
\<close>

definition solve :: "solver \<Rightarrow> grid \<Rightarrow> int \<Rightarrow> error option \<times> grid" where
  "solve S grid current_number =
     (case instance_clauses grid of
        Inl e \<Rightarrow> (Some e, grid)
      | Inr clauses \<Rightarrow>
          if \<not> (- 82 \<le> current_number \<and> current_number < 82) then (Some IndexError, grid)
          else
            (case run_solver S clauses of
               None \<Rightarrow> (Some NameError, grid)
             | Some sol \<Rightarrow>
                 for_each (\<lambda>i. for_each (\<lambda>j. store_cell sol i j) (range_py 1 10))
                   (range_py 1 10) grid))"

subsection \<open>is_proper\<close>

text \<open>
  The result is the value returned or the exception raised, and the caller's clause
  list as the call leaves it. Negating the characters of a string raises \<open>TypeError\<close>
  before anything is appended.
\<close>

definition is_proper :: "solver \<Rightarrow> clause list \<Rightarrow> (error + bool) \<times> clause list" where
  "is_proper S clauses =
     (case S clauses of
        Model sol \<Rightarrow>
          (let clauses' = clauses @ [map (\<lambda>x. - x) sol]
           in (case S clauses' of
                 Model sol' \<Rightarrow> (Inr False, clauses')
               | UNSAT \<Rightarrow> (Inr True, clauses')
               | UNKNOWN \<Rightarrow> (Inr True, clauses')))
      | UNSAT \<Rightarrow> (Inl TypeError, clauses)
      | UNKNOWN \<Rightarrow> (Inl TypeError, clauses))"

section \<open>What the clauses mean\<close>

subsection \<open>Satisfaction\<close>

text \<open>A valuation gives every variable a truth value; a positive literal asserts its
  variable, a negative one denies it.\<close>

definition lit_true :: "(int \<Rightarrow> bool) \<Rightarrow> int \<Rightarrow> bool" where
  "lit_true val l = ((0 < l \<and> val l) \<or> (l < 0 \<and> \<not> val (- l)))"

definition clause_true :: "(int \<Rightarrow> bool) \<Rightarrow> clause \<Rightarrow> bool" where
  "clause_true val c = (\<exists>l \<in> set c. lit_true val l)"

definition satisfiable :: "clause list \<Rightarrow> bool" where
  "satisfiable cs = (\<exists>val. \<forall>c \<in> set cs. clause_true val c)"

text \<open>A list of literals, as the solver returns it, is a satisfying assignment of a clause
  list when it asserts no variable both ways and holds a literal of every clause.\<close>

definition consistent :: "int list \<Rightarrow> bool" where
  "consistent m = (\<forall>l \<in> set m. - l \<notin> set m)"

definition satisfies :: "int list \<Rightarrow> clause list \<Rightarrow> bool" where
  "satisfies m cs = (consistent m \<and> (\<forall>c \<in> set cs. \<exists>l \<in> set c. l \<in> set m))"

subsection \<open>Sudoku grids\<close>

definition shape_9x9 :: "grid \<Rightarrow> bool" where
  "shape_9x9 g = (length g = 9 \<and> (\<forall>r \<in> set g. length r = 9))"

text \<open>The grids of the data model: 9 rows of 9 digits in \<open>0..9\<close>.\<close>

definition wf_grid :: "grid \<Rightarrow> bool" where
  "wf_grid g = (shape_9x9 g \<and> (\<forall>r \<in> set g. \<forall>c \<in> set r. c \<in> Some ` {0..9}))"

text \<open>Grids of integers of magnitude at most \<open>2 ^ 30\<close>, digits or not: on these the sum
  \<open>v(i, j, d)\<close> is the same number for a list of Python integers and for a numpy integer
  array, whose entries are machine words.\<close>

definition word_cells :: "grid \<Rightarrow> bool" where
  "word_cells g = (\<forall>r \<in> set g. \<forall>c \<in> set r. c \<in> Some ` {- (2 ^ 30)..2 ^ 30})"

definition grid_rows :: "grid \<Rightarrow> cell list list" where
  "grid_rows g = map (\<lambda>i. map (\<lambda>j. g ! i ! j) [0..<9]) [0..<9]"

definition grid_cols :: "grid \<Rightarrow> cell list list" where
  "grid_cols g = map (\<lambda>j. map (\<lambda>i. g ! i ! j) [0..<9]) [0..<9]"

definition grid_boxes :: "grid \<Rightarrow> cell list list" where
  "grid_boxes g =
     concat (map (\<lambda>a. map (\<lambda>b.
       concat (map (\<lambda>x. map (\<lambda>y. g ! (3 * a + x) ! (3 * b + y)) [0..<3]) [0..<3]))
       [0..<3]) [0..<3])"

definition is_permutation_1_9 :: "cell list \<Rightarrow> bool" where
  "is_permutation_1_9 xs = (mset xs = mset (map Some [1..9]))"

text \<open>A completed Sudoku: every row, column and 3x3 box is a permutation of 1..9.\<close>

definition valid_sudoku :: "grid \<Rightarrow> bool" where
  "valid_sudoku g =
     (shape_9x9 g \<and> (\<forall>u \<in> set (grid_rows g @ grid_cols g @ grid_boxes g). is_permutation_1_9 u))"

text \<open>\<open>g'\<close> keeps every clue (nonzero cell) of \<open>g\<close>.\<close>

definition keeps_clues :: "grid \<Rightarrow> grid \<Rightarrow> bool" where
  "keeps_clues g g' =
     (\<forall>i \<in> {0..<9}. \<forall>j \<in> {0..<9}. g ! i ! j \<noteq> Some 0 \<longrightarrow> g' ! i ! j = g ! i ! j)"

definition has_completion :: "grid \<Rightarrow> bool" where
  "has_completion g = (\<exists>g'. valid_sudoku g' \<and> keeps_clues g g')"

subsection \<open>The clauses, as the specification lists them\<close>

text \<open>All pairs of a list, the earlier element first: the unordered pairs of distinct
  positions.\<close>

fun pairs :: "'a list \<Rightarrow> ('a \<times> 'a) list" where
  "pairs [] = []"
| "pairs (x # xs) = map (Pair x) xs @ pairs xs"

definition at_least_one :: "int \<Rightarrow> int \<Rightarrow> clause" where
  "at_least_one i j = map (\<lambda>d. v i j d) [1..9]"

definition not_two :: "int \<Rightarrow> int \<Rightarrow> clause list" where
  "not_two i j = map (\<lambda>(d, d'). [- v i j d, - v i j d']) (pairs [1..9])"

definition distinct_clauses :: "(int \<times> int) list \<Rightarrow> clause list" where
  "distinct_clauses cells =
     concat (map (\<lambda>(x, y). map (\<lambda>d. [- v (fst x) (snd x) d, - v (fst y) (snd y) d]) [1..9])
       (pairs cells))"

definition all_cells :: "(int \<times> int) list" where
  "all_cells = concat (map (\<lambda>i. map (\<lambda>j. (i, j)) [1..9]) [1..9])"

definition box_groups :: "(int \<times> int) list list" where
  "box_groups = concat (map (\<lambda>i. map (\<lambda>j. box_cells i j) [1, 4, 7]) [1, 4, 7])"

text \<open>The 27 groups in the order the source visits them, and in the order of the
  specification (rows, columns, boxes).\<close>

definition code_groups :: "(int \<times> int) list list" where
  "code_groups = concat (map (\<lambda>i. [row_cells i, col_cells i]) [1..9]) @ box_groups"

definition spec_groups :: "(int \<times> int) list list" where
  "spec_groups = map row_cells [1..9] @ map col_cells [1..9] @ box_groups"

definition at_least_one_digit :: "clause list" where
  "at_least_one_digit = map (\<lambda>(i, j). at_least_one i j) all_cells"

definition not_two_digits :: "clause list" where
  "not_two_digits = concat (map (\<lambda>(i, j). not_two i j) all_cells)"

definition distinct_values :: "clause list" where
  "distinct_values = concat (map distinct_clauses spec_groups)"

text \<open>The coordinates of the 81 cells.\<close>

definition in_grid :: "int \<times> int \<Rightarrow> bool" where
  "in_grid x = (1 \<le> fst x \<and> fst x \<le> 9 \<and> 1 \<le> snd x \<and> snd x \<le> 9)"

text \<open>The cell of a grid at the 1-based coordinates the clauses use.\<close>

definition cell_at :: "grid \<Rightarrow> int \<times> int \<Rightarrow> cell" where
  "cell_at g x = g ! nat (fst x - 1) ! nat (snd x - 1)"

text \<open>The unit clauses of the clues: one for every cell that holds a nonzero digit, in the
  order of the loop.\<close>

definition clue_clauses :: "grid \<Rightarrow> clause list" where
  "clue_clauses g =
     map (\<lambda>(i, j). [v i j (the (cell_at g (i, j)))]) (filter (\<lambda>x. truthy (cell_at g x)) all_cells)"

subsection \<open>Between assignments and grids\<close>

text \<open>The grid a valuation describes: every cell holds the first digit the valuation
  asserts for it (\<open>None\<close> when it asserts none). The literals a grid describes: for every
  cell and digit, the variable or its negation.\<close>

definition decode_val :: "(int \<Rightarrow> bool) \<Rightarrow> grid" where
  "decode_val val = map (\<lambda>i. map (\<lambda>j. List.find (\<lambda>d. val (v i j d)) [1..9]) [1..9]) [1..9]"

definition model_of_grid :: "grid \<Rightarrow> int list" where
  "model_of_grid g =
     concat (map (\<lambda>(i, j). map (\<lambda>d. if cell_at g (i, j) = Some d then v i j d else - v i j d) [1..9])
       all_cells)"

subsection \<open>Two grids\<close>

text \<open>The puzzle whose only clue is \<open>grid[0][1] = 2\<close>, and a completed Sudoku with that
  clue.\<close>

definition blank_row :: "cell list" where
  "blank_row = map Some [0, 0, 0, 0, 0, 0, 0, 0, 0]"

definition one_clue_grid :: grid where
  "one_clue_grid =
     map Some [0, 2, 0, 0, 0, 0, 0, 0, 0] #
     [blank_row, blank_row, blank_row, blank_row, blank_row, blank_row, blank_row, blank_row]"

definition solved_grid :: grid where
  "solved_grid = map (map Some)
     [[1, 2, 3, 4, 5, 6, 7, 8, 9],
      [4, 5, 6, 7, 8, 9, 1, 2, 3],
      [7, 8, 9, 1, 2, 3, 4, 5, 6],
      [2, 3, 4, 5, 6, 7, 8, 9, 1],
      [5, 6, 7, 8, 9, 1, 2, 3, 4],
      [8, 9, 1, 2, 3, 4, 5, 6, 7],
      [3, 4, 5, 6, 7, 8, 9, 1, 2],
      [6, 7, 8, 9, 1, 2, 3, 4, 5],
      [9, 1, 2, 3, 4, 5, 6, 7, 8]]"

text \<open>A puzzle with the digit 5 twice in its first row, and a grid whose first cell holds
  11, which is no digit.\<close>

definition clash_grid :: grid where
  "clash_grid =
     map Some [5, 5, 0, 0, 0, 0, 0, 0, 0] #
     [blank_row, blank_row, blank_row, blank_row, blank_row, blank_row, blank_row, blank_row]"

definition out_of_range_grid :: grid where
  "out_of_range_grid =
     map Some [11, 0, 0, 0, 0, 0, 0, 0, 0] #
     [blank_row, blank_row, blank_row, blank_row, blank_row, blank_row, blank_row, blank_row]"

subsection \<open>A solver that answers one clause list correctly\<close>

definition answer_correct :: "solver \<Rightarrow> clause list \<Rightarrow> bool" where
  "answer_correct S cs =
     (case S cs of Model m \<Rightarrow> satisfies m cs | UNSAT \<Rightarrow> \<not> satisfiable cs
      | UNKNOWN \<Rightarrow> \<not> satisfiable cs)"

section \<open>Variable numbering\<close>

lemma v_bounds:
  assumes "1 \<le> i" "i \<le> 9" "1 \<le> j" "j \<le> 9" "1 \<le> d" "d \<le> 9"
  shows "1 \<le> v i j d" and "v i j d \<le> 729"
  using assms by (simp_all add: v_def)

lemma v_inject:
  assumes "1 \<le> j" "j \<le> 9" "1 \<le> d" "d \<le> 9" "1 \<le> j'" "j' \<le> 9" "1 \<le> d'" "d' \<le> 9"
  shows "v i j d = v i' j' d' \<longleftrightarrow> i = i' \<and> j = j' \<and> d = d'"
proof
  assume eq: "v i j d = v i' j' d'"
  then have e: "81 * (i - i') = (9 * j' + d') - (9 * j + d)"
    by (simp add: v_def)
  have "- 81 < 81 * (i - i')" "81 * (i - i') < 81"
    using assms unfolding e by linarith+
  then have i: "i = i'" by simp
  with e have e2: "9 * (j - j') = d' - d" by simp
  have "- 9 < 9 * (j - j')" "9 * (j - j') < 9"
    using assms unfolding e2 by linarith+
  then have j: "j = j'" by simp
  with e2 i show "i = i' \<and> j = j' \<and> d = d'" by simp
next
  assume "i = i' \<and> j = j' \<and> d = d'"
  then show "v i j d = v i' j' d'" by simp
qed

lemma v_surj:
  fixes x :: int
  assumes "1 \<le> x" "x \<le> 729"
  shows "\<exists>r c d. 1 \<le> r \<and> r \<le> 9 \<and> 1 \<le> c \<and> c \<le> 9 \<and> 1 \<le> d \<and> d \<le> 9 \<and> v r c d = x"
proof -
  define a where "a = (x - 1) div 81"
  define b where "b = (x - 1) mod 81"
  define c where "c = b div 9"
  define e where "e = b mod 9"
  have x: "x - 1 = 81 * a + b" by (simp add: a_def b_def)
  have b: "b = 9 * c + e" by (simp add: c_def e_def)
  have rb: "0 \<le> b" "b < 81" by (simp_all add: b_def)
  have re: "0 \<le> e" "e < 9" by (simp_all add: e_def)
  have ra: "0 \<le> a" "a < 9" using assms x rb by linarith+
  have rc: "0 \<le> c" "c < 9" using b rb re by linarith+
  have "v (a + 1) (c + 1) (e + 1) = x"
    using x b by (simp add: v_def)
  with ra rc re show ?thesis
    by (intro exI [of _ "a + 1"] exI [of _ "c + 1"] exI [of _ "e + 1"]) simp
qed

text \<open>
  C2: the variable of row \<open>r\<close>, column \<open>c\<close> and digit \<open>d\<close> is
  \<open>81 * (r - 1) + 9 * (c - 1) + d\<close>; on rows, columns and digits in 1..9 the numbering
  is injective, and its values are exactly the integers 1..729.
\<close>

theorem v_bijection:
  "(\<forall>r c d. v r c d = 81 * (r - 1) + 9 * (c - 1) + d) \<and>
   inj_on (\<lambda>(r, c, d). v r c d) ({1..9} \<times> {1..9} \<times> {1..9}) \<and>
   (\<lambda>(r, c, d). v r c d) ` ({1..9} \<times> {1..9} \<times> {1..9}) = {1..729}"
proof (intro conjI)
  show "\<forall>r c d. v r c d = 81 * (r - 1) + 9 * (c - 1) + d"
    by (simp add: v_def)
  show "inj_on (\<lambda>(r, c, d). v r c d) ({1..9} \<times> {1..9} \<times> {1..9})"
  proof (rule inj_onI)
    fix p q :: "int \<times> int \<times> int"
    assume p: "p \<in> {1..9} \<times> {1..9} \<times> {1..9}" and q: "q \<in> {1..9} \<times> {1..9} \<times> {1..9}"
      and eq: "(\<lambda>(r, c, d). v r c d) p = (\<lambda>(r, c, d). v r c d) q"
    obtain r c d where p': "p = (r, c, d)" by (cases p)
    obtain r' c' d' where q': "q = (r', c', d')" by (cases q)
    have "1 \<le> c" "c \<le> 9" "1 \<le> d" "d \<le> 9" "1 \<le> c'" "c' \<le> 9" "1 \<le> d'" "d' \<le> 9"
      using p q unfolding p' q' by simp_all
    then have "v r c d = v r' c' d' \<longleftrightarrow> r = r' \<and> c = c' \<and> d = d'"
      by (rule v_inject)
    with eq show "p = q" unfolding p' q' by simp
  qed
  show "(\<lambda>(r, c, d). v r c d) ` ({1..9} \<times> {1..9} \<times> {1..9}) = {1..729}"
  proof (intro equalityI subsetI)
    fix x assume "x \<in> (\<lambda>(r, c, d). v r c d) ` ({1..9} \<times> {1..9} \<times> {1..9})"
    then obtain r c d where "x = v r c d" "1 \<le> r" "r \<le> 9" "1 \<le> c" "c \<le> 9" "1 \<le> d" "d \<le> 9"
      by auto
    then show "x \<in> {1..729}"
      by (simp add: v_def)
  next
    fix x :: int assume "x \<in> {1..729}"
    then obtain r c d where "1 \<le> r" "r \<le> 9" "1 \<le> c" "c \<le> 9" "1 \<le> d" "d \<le> 9" "v r c d = x"
      using v_surj [of x] by auto
    then have "(r, c, d) \<in> {1..9} \<times> {1..9} \<times> {1..9}" and "(\<lambda>(r, c, d). v r c d) (r, c, d) = x"
      by simp_all
    then show "x \<in> (\<lambda>(r, c, d). v r c d) ` ({1..9} \<times> {1..9} \<times> {1..9})"
      by blast
  qed
qed

section \<open>The loops as lists\<close>

lemma fold_snoc_concat: "fold (\<lambda>x r. r @ f x) xs r = r @ concat (map f xs)"
  by (induction xs arbitrary: r) simp_all

lemma fold_snoc_concat_fun: "fold (\<lambda>x r. r @ f x) xs = (\<lambda>r. r @ concat (map f xs))"
  by (rule ext) (rule fold_snoc_concat)

lemma fold_snoc_concat_prod:
  "fold (\<lambda>(i, x) r. r @ f i x) xs r = r @ concat (map (\<lambda>(i, x). f i x) xs)"
  by (induction xs arbitrary: r) (simp_all add: case_prod_beta)

lemma range_1_10: "range_py 1 10 = [1, 2, 3, 4, 5, 6, 7, 8, 9]"
  by (simp add: range_py_def upto_rec1)

lemma range_0_9: "range_py 0 9 = [0, 1, 2, 3, 4, 5, 6, 7, 8]"
  by (simp add: range_py_def upto_rec1)

lemma upto_1_9: "[1..9] = [1, 2, 3, 4, 5, 6, 7, 8, 9::int]"
  by (simp add: upto_rec1)

lemma cell_clauses_eq: "cell_clauses i j res = res @ at_least_one i j # not_two i j"
  unfolding cell_clauses_def at_least_one_def not_two_def
  by (simp add: range_1_10 upto_1_9 range_py_def upto_rec1)

lemma concat_drop_enumerate:
  "concat (map (\<lambda>(j, y). if k < j then G y else []) (enumerate m ys)) =
   concat (map G (drop (Suc k - m) ys))"
proof (induction ys arbitrary: m)
  case Nil
  then show ?case by simp
next
  case (Cons y ys)
  show ?case
  proof (cases "k < m")
    case True
    then show ?thesis using Cons [of "Suc m"] by simp
  next
    case False
    then have "Suc k - m = Suc (k - m)" by simp
    with False show ?thesis using Cons [of "Suc m"] by simp
  qed
qed

lemma valid_pairs_aux:
  "concat (map (\<lambda>(i, a). concat (map (\<lambda>(j, b). if i < j then F a b else [])
      (enumerate 0 (pre @ suf)))) (enumerate (length pre) suf)) =
   concat (map (\<lambda>(a, b). F a b) (pairs suf))"
proof (induction suf arbitrary: pre)
  case Nil
  then show ?case by simp
next
  case (Cons x suf)
  have "concat (map (\<lambda>(j, b). if length pre < j then F x b else [])
      (enumerate 0 (pre @ x # suf))) = concat (map (F x) suf)"
    by (simp add: concat_drop_enumerate)
  then show ?case
    using Cons.IH [of "pre @ [x]"] by (simp add: comp_def)
qed

lemma valid_eq: "valid cells res = res @ distinct_clauses cells"
proof -
  have if_app: "\<And>c r a. (if c then r @ a else r) = r @ (if c then a else [])"
    by simp
  have "valid cells res = res @ concat (map (\<lambda>(i, x). concat (map (\<lambda>(j, y).
      if i < j then map (\<lambda>d. [- v (fst x) (snd x) d, - v (fst y) (snd y) d]) [1..9] else [])
      (enumerate 0 ([] @ cells)))) (enumerate (length ([] :: (int \<times> int) list)) cells))"
    unfolding valid_def range_py_def
    by (simp add: split_def fold_snoc_concat_fun if_app cong: if_cong)
  then show ?thesis
    unfolding distinct_clauses_def valid_pairs_aux .
qed


lemma range_1_10_upto: "range_py 1 10 = [1..9]"
  by (simp add: range_py_def)

lemma concat_map_cells:
  "concat (map (\<lambda>(i, j). F i j) (concat (map (\<lambda>i. map (\<lambda>j. (i, j)) js) is))) =
   concat (map (\<lambda>i. concat (map (\<lambda>j. F i j) js)) is)"
  by (induction "is") (simp_all add: comp_def)

lemma concat_map_row_col:
  "concat (map G (concat (map (\<lambda>i. [R i, C i]) is))) = concat (map (\<lambda>i. G (R i) @ G (C i)) is)"
  by (induction "is") simp_all

lemma cells_part_eq:
  "fold (\<lambda>i r. fold (\<lambda>j r'. cell_clauses i j r') (range_py 1 10) r) (range_py 1 10) [] =
   concat (map (\<lambda>(i, j). at_least_one i j # not_two i j) all_cells)"
  unfolding cell_clauses_eq [abs_def] all_cells_def concat_map_cells range_1_10_upto
  by (simp add: fold_snoc_concat_fun fold_snoc_concat)

lemma rows_cols_part_eq:
  "fold (\<lambda>i r. valid (col_cells i) (valid (row_cells i) r)) (range_py 1 10) res =
   res @ concat (map distinct_clauses (concat (map (\<lambda>i. [row_cells i, col_cells i]) [1..9])))"
  unfolding valid_eq [abs_def] concat_map_row_col range_1_10_upto
  by (simp add: fold_snoc_concat)

lemma boxes_part_eq:
  "fold (\<lambda>i r. fold (\<lambda>j r'. valid (box_cells i j) r') [1, 4, 7] r) [1, 4, 7] res =
   res @ concat (map distinct_clauses box_groups)"
  unfolding valid_eq [abs_def] box_groups_def
  by simp

lemma built_clauses_eq:
  "built_clauses =
     concat (map (\<lambda>(i, j). at_least_one i j # not_two i j) all_cells) @
     concat (map distinct_clauses code_groups)"
  unfolding built_clauses_def Let_def cells_part_eq rows_cols_part_eq boxes_part_eq code_groups_def
  by simp


section \<open>Counting the clauses\<close>

lemma length_concat_const:
  "(\<And>x. x \<in> set xs \<Longrightarrow> length (f x) = k) \<Longrightarrow> length (concat (map f xs)) = k * length xs"
  by (induction xs) simp_all

lemma length_pairs_sq: "2 * length (pairs xs) + length xs = length xs * length xs"
  by (induction xs) simp_all

lemma length_pairs_9: "length xs = 9 \<Longrightarrow> length (pairs xs) = 36"
  using length_pairs_sq [of xs] by simp

lemma length_distinct_clauses: "length (distinct_clauses g) = 9 * length (pairs g)"
  unfolding distinct_clauses_def
  by (rule length_concat_const) (simp add: split_def)

lemma length_not_two: "length (not_two i j) = 36"
  unfolding not_two_def by (simp add: length_pairs_9)

lemma length_all_cells: "length all_cells = 81"
  unfolding all_cells_def by (simp add: length_concat_const [where k = 9])

lemma length_row_cells: "length (row_cells i) = 9"
  and length_col_cells: "length (col_cells i) = 9"
  and length_box_cells: "length (box_cells i j) = 9"
  by (simp_all add: row_cells_def col_cells_def box_cells_def range_py_def)

lemma length_box_groups: "length box_groups = 9"
  by (simp add: box_groups_def)

lemma length_code_groups: "length code_groups = 27"
  unfolding code_groups_def
  by (simp add: length_concat_const [where k = 2] length_box_groups)

lemma length_spec_groups: "length spec_groups = 27"
  unfolding spec_groups_def by (simp add: length_box_groups)

lemma box_groups_length_9: "g \<in> set box_groups \<Longrightarrow> length g = 9"
  unfolding box_groups_def by (auto simp: length_box_cells)

lemma code_groups_length_9: "g \<in> set code_groups \<Longrightarrow> length g = 9"
  unfolding code_groups_def
  by (auto simp: length_row_cells length_col_cells box_groups_length_9)

lemma spec_groups_length_9: "g \<in> set spec_groups \<Longrightarrow> length g = 9"
  unfolding spec_groups_def
  by (auto simp: length_row_cells length_col_cells box_groups_length_9)

lemma length_group_clauses: "length g = 9 \<Longrightarrow> length (distinct_clauses g) = 324"
  by (simp add: length_distinct_clauses length_pairs_9)

lemma length_built_clauses: "length built_clauses = 11745"
proof -
  have "length (concat (map (\<lambda>(i, j). at_least_one i j # not_two i j) all_cells)) = 37 * 81"
    using length_concat_const [of all_cells "\<lambda>(i, j). at_least_one i j # not_two i j" 37]
    by (simp add: split_def length_not_two length_all_cells)
  moreover have "length (concat (map distinct_clauses code_groups)) = 324 * 27"
    using length_concat_const [of code_groups distinct_clauses 324]
    by (simp add: length_group_clauses code_groups_length_9 length_code_groups)
  ultimately show ?thesis
    unfolding built_clauses_eq by simp
qed

lemma sudoku_clauses_eq: "sudoku_clauses = Inr built_clauses"
  by (simp add: sudoku_clauses_def length_built_clauses)

lemma mset_concat_cons:
  "mset (concat (map (\<lambda>x. f x # g x) xs)) = mset (map f xs) + mset (concat (map g xs))"
  by (induction xs) simp_all

lemma mset_concat_map: "mset (concat (map f xs)) = (\<Sum>x \<in># mset xs. mset (f x))"
  by (induction xs) simp_all

lemma mset_concat_map_perm:
  "mset xs = mset ys \<Longrightarrow> mset (concat (map f xs)) = mset (concat (map f ys))"
  by (simp add: mset_concat_map)

lemma mset_row_col: "mset (concat (map (\<lambda>i. [R i, C i]) is)) = mset (map R is @ map C is)"
  by (induction "is") simp_all

lemma mset_code_groups: "mset code_groups = mset spec_groups"
  unfolding code_groups_def spec_groups_def
  by (simp add: mset_row_col)

lemma mset_built_clauses:
  "mset built_clauses = mset at_least_one_digit + mset not_two_digits + mset distinct_values"
proof -
  have "mset (concat (map (\<lambda>(i, j). at_least_one i j # not_two i j) all_cells)) =
      mset at_least_one_digit + mset not_two_digits"
    unfolding at_least_one_digit_def not_two_digits_def split_def
    by (rule mset_concat_cons)
  moreover have "mset (concat (map distinct_clauses code_groups)) = mset distinct_values"
    unfolding distinct_values_def
    by (rule mset_concat_map_perm) (rule mset_code_groups)
  ultimately show ?thesis
    unfolding built_clauses_eq by simp
qed

lemma length_kinds:
  "length at_least_one_digit = 81" "length not_two_digits = 2916" "length distinct_values = 8748"
proof -
  show "length at_least_one_digit = 81"
    by (simp add: at_least_one_digit_def length_all_cells)
  show "length not_two_digits = 2916"
    unfolding not_two_digits_def
    using length_concat_const [of all_cells "\<lambda>(i, j). not_two i j" 36]
    by (simp add: split_def length_not_two length_all_cells)
  show "length distinct_values = 8748"
    unfolding distinct_values_def
    using length_concat_const [of spec_groups distinct_clauses 324]
    by (simp add: length_group_clauses spec_groups_length_9 length_spec_groups)
qed

text \<open>
  C3: \<open>sudoku_clauses()\<close> passes its assertion and returns a list of exactly 11745
  clauses: up to their order, the 81 "at least one digit" clauses, the 2916 "not two
  digits" clauses and the 8748 "distinct values" clauses. The function takes no argument
  and reads no state, so every call returns this same list.
\<close>

theorem sudoku_clauses_count:
  "sudoku_clauses = Inr built_clauses \<and>
   length built_clauses = 11745 \<and>
   mset built_clauses = mset at_least_one_digit + mset not_two_digits + mset distinct_values \<and>
   length at_least_one_digit = 81 \<and>
   length not_two_digits = 2916 \<and>
   length distinct_values = 8748"
  using sudoku_clauses_eq length_built_clauses mset_built_clauses length_kinds
  by simp

section \<open>Pairs of a list\<close>

lemma pairs_subset: "(a, b) \<in> set (pairs xs) \<Longrightarrow> a \<in> set xs \<and> b \<in> set xs"
  by (induction xs) auto

lemma pairs_distinct_neq: "distinct xs \<Longrightarrow> (a, b) \<in> set (pairs xs) \<Longrightarrow> a \<noteq> b"
  by (induction xs) (auto dest: pairs_subset)

lemma pairs_total:
  "a \<in> set xs \<Longrightarrow> b \<in> set xs \<Longrightarrow> a \<noteq> b \<Longrightarrow> (a, b) \<in> set (pairs xs) \<or> (b, a) \<in> set (pairs xs)"
  by (induction xs) auto

lemma pairs_asym:
  "distinct xs \<Longrightarrow> (a, b) \<in> set (pairs xs) \<Longrightarrow> (b, a) \<notin> set (pairs xs)"
  by (induction xs) (auto dest: pairs_subset)

lemma distinct_pairs: "distinct xs \<Longrightarrow> distinct (pairs xs)"
  by (induction xs) (auto simp: distinct_map inj_on_def dest: pairs_subset)

lemma distinct_map_pairs:
  "distinct (map f xs) \<longleftrightarrow> (\<forall>(a, b) \<in> set (pairs xs). f a \<noteq> f b)"
  by (induction xs) auto

lemma concat_map_product:
  "concat (map (\<lambda>x. map (\<lambda>y. f x y) ys) xs) = map (\<lambda>(x, y). f x y) (List.product xs ys)"
  by (induction xs) simp_all

lemma distinct_clauses_product:
  "distinct_clauses g =
     map (\<lambda>((x, y), d). [- v (fst x) (snd x) d, - v (fst y) (snd y) d]) (List.product (pairs g) [1..9])"
  unfolding distinct_clauses_def
  using concat_map_product [of "\<lambda>p d. [- v (fst (fst p)) (snd (fst p)) d, - v (fst (snd p)) (snd (snd p)) d]" "[1..9]" "pairs g"]
  by (simp add: split_def)

lemma neg_clause_eq:
  assumes "in_grid x" "in_grid y" "in_grid x'" "in_grid y'" "1 \<le> d" "d \<le> 9" "1 \<le> d'" "d' \<le> 9"
  shows "[- v (fst x) (snd x) d, - v (fst y) (snd y) d] =
         [- v (fst x') (snd x') d', - v (fst y') (snd y') d'] \<longleftrightarrow> x = x' \<and> y = y' \<and> d = d'"
  using assms unfolding in_grid_def
  by (auto simp: v_inject prod_eq_iff)

lemma distinct_distinct_clauses:
  assumes "distinct g" "\<forall>x \<in> set g. in_grid x"
  shows "distinct (distinct_clauses g)"
proof -
  have "distinct (List.product (pairs g) [1..9])"
    using assms by (simp add: distinct_product distinct_pairs)
  moreover have "inj_on (\<lambda>((x, y), d). [- v (fst x) (snd x) d, - v (fst y) (snd y) d])
      (set (List.product (pairs g) [1..9]))"
  proof (rule inj_onI)
    fix p q
    assume p: "p \<in> set (List.product (pairs g) [1..9])"
      and q: "q \<in> set (List.product (pairs g) [1..9])"
      and eq: "(\<lambda>((x, y), d). [- v (fst x) (snd x) d, - v (fst y) (snd y) d]) p =
               (\<lambda>((x, y), d). [- v (fst x) (snd x) d, - v (fst y) (snd y) d]) q"
    obtain x y d where p': "p = ((x, y), d)" by (cases p) auto
    obtain x' y' d' where q': "q = ((x', y'), d')" by (cases q) auto
    have "in_grid x" "in_grid y" "in_grid x'" "in_grid y'"
      using p q assms(2) unfolding p' q' by (auto dest: pairs_subset)
    moreover have "1 \<le> d" "d \<le> 9" "1 \<le> d'" "d' \<le> 9"
      using p q unfolding p' q' by auto
    ultimately show "p = q"
      using eq neg_clause_eq [of x y x' y' d d'] unfolding p' q' by simp
  qed
  ultimately show ?thesis
    unfolding distinct_clauses_product by (simp add: distinct_map)
qed

lemma distinct_clauses_mem:
  assumes "\<forall>x \<in> set g. in_grid x" "in_grid x" "in_grid y" "1 \<le> d" "d \<le> 9"
  shows "[- v (fst x) (snd x) d, - v (fst y) (snd y) d] \<in> set (distinct_clauses g)
         \<longleftrightarrow> (x, y) \<in> set (pairs g)"
proof
  assume "[- v (fst x) (snd x) d, - v (fst y) (snd y) d] \<in> set (distinct_clauses g)"
  then obtain x' y' d' where m: "(x', y') \<in> set (pairs g)" "1 \<le> d'" "d' \<le> 9"
    and eq: "[- v (fst x) (snd x) d, - v (fst y) (snd y) d] =
             [- v (fst x') (snd x') d', - v (fst y') (snd y') d']"
    unfolding distinct_clauses_def by auto
  have "in_grid x'" "in_grid y'"
    using m(1) assms(1) by (auto dest: pairs_subset)
  then have "x = x' \<and> y = y' \<and> d = d'"
    using neg_clause_eq [of x y x' y' d d'] assms m eq by simp
  with m show "(x, y) \<in> set (pairs g)" by simp
next
  assume "(x, y) \<in> set (pairs g)"
  then show "[- v (fst x) (snd x) d, - v (fst y) (snd y) d] \<in> set (distinct_clauses g)"
    unfolding distinct_clauses_def using assms(4,5) by force
qed


section \<open>The 27 groups\<close>

lemma set_row_cells: "set (row_cells i) = {i} \<times> {1..9}"
  unfolding row_cells_def range_1_10_upto by auto

lemma set_col_cells: "set (col_cells j) = {1..9} \<times> {j}"
  unfolding col_cells_def range_1_10_upto by auto

lemma box_cells_list:
  "box_cells i j = [(i, j), (i + 1, j), (i + 2, j), (i, j + 1), (i + 1, j + 1), (i + 2, j + 1),
     (i, j + 2), (i + 1, j + 2), (i + 2, j + 2)]"
  unfolding box_cells_def range_0_9 by simp

lemma set_box_cells: "set (box_cells i j) = {i..i + 2} \<times> {j..j + 2}"
proof -
  have "\<And>k::int. {k..k + 2} = {k, k + 1, k + 2}" by auto
  then show ?thesis unfolding box_cells_list by auto
qed

lemma distinct_row_cells: "distinct (row_cells i)"
  and distinct_col_cells: "distinct (col_cells i)"
  and distinct_box_cells: "distinct (box_cells i j)"
  unfolding row_cells_def col_cells_def box_cells_list range_1_10_upto
  by (simp_all add: distinct_map inj_on_def)

lemma set_box_groups: "set box_groups = (\<lambda>(i, j). box_cells i j) ` ({1, 4, 7} \<times> {1, 4, 7})"
  unfolding box_groups_def by auto

lemma set_code_groups:
  "set code_groups = row_cells ` {1..9} \<union> col_cells ` {1..9} \<union> set box_groups"
  unfolding code_groups_def by auto

lemma set_spec_groups: "set spec_groups = set code_groups"
  using mset_code_groups by (metis set_mset_mset)

lemma code_groups_cases:
  assumes "g \<in> set code_groups"
  obtains i where "1 \<le> i" "i \<le> 9" "g = row_cells i"
  | j where "1 \<le> j" "j \<le> 9" "g = col_cells j"
  | i j where "i \<in> {1, 4, 7}" "j \<in> {1, 4, 7}" "g = box_cells i j"
  using assms unfolding set_code_groups set_box_groups by auto

lemma code_groups_distinct: "g \<in> set code_groups \<Longrightarrow> distinct g"
  by (erule code_groups_cases) (simp_all add: distinct_row_cells distinct_col_cells distinct_box_cells)

lemma code_groups_in_grid:
  assumes "g \<in> set code_groups" "x \<in> set g"
  shows "in_grid x"
  using assms(1)
proof (cases rule: code_groups_cases)
  case (1 i)
  with assms(2) show ?thesis by (auto simp: set_row_cells in_grid_def)
next
  case (2 j)
  with assms(2) show ?thesis by (auto simp: set_col_cells in_grid_def)
next
  case (3 i j)
  with assms(2) show ?thesis by (auto simp: set_box_cells in_grid_def)
qed

lemma boxes_are_blocks:
  "(\<lambda>(i, j). set (box_cells i j)) ` ({1, 4, 7} \<times> {1, 4, 7}) =
   (\<lambda>(a, b). {3 * a + 1..3 * a + 3} \<times> {3 * b + 1..3 * b + 3}) ` ({0..2} \<times> {0..2})"
proof -
  have "{0..2::int} = {0, 1, 2}" by auto
  then show ?thesis
    unfolding set_box_cells by (simp add: image_Un)
qed

lemma group_orientation:
  assumes g: "g \<in> set code_groups" and x: "x \<in> set g" and y: "y \<in> set g" and xy: "x \<noteq> y"
    and d: "1 \<le> d" "d \<le> 9"
  shows "([- v (fst x) (snd x) d, - v (fst y) (snd y) d] \<in> set (distinct_clauses g)) \<noteq>
         ([- v (fst y) (snd y) d, - v (fst x) (snd x) d] \<in> set (distinct_clauses g))"
proof -
  have ig: "\<forall>z \<in> set g. in_grid z"
    using g by (auto intro: code_groups_in_grid)
  have "((x, y) \<in> set (pairs g)) \<noteq> ((y, x) \<in> set (pairs g))"
    using pairs_total [OF x y xy] pairs_asym [OF code_groups_distinct [OF g]] by blast
  then show ?thesis
    using distinct_clauses_mem [OF ig _ _ d] ig x y by simp
qed


text \<open>
  C4: \<open>valid(cells)\<close> appends, for every pair of positions \<open>p < q\<close> of \<open>cells\<close> and every
  digit \<open>d\<close>, the clause \<open>[-v(x, d), -v(y, d)]\<close> of the cells \<open>x\<close>, \<open>y\<close> at these positions;
  the group part of the clause list is the result of these calls on the 27 groups (rows,
  columns, and the boxes at the anchors \<open>{1,4,7} x {1,4,7}\<close>). Every group has 9 distinct
  cells and contributes 324 distinct clauses, one for every unordered pair of distinct
  cells and every digit; the cell sets of the box groups are the nine 3x3 blocks.
\<close>

theorem valid_groups:
  "(\<forall>cells res. valid cells res = res @ distinct_clauses cells) \<and>
   built_clauses =
     concat (map (\<lambda>(i, j). at_least_one i j # not_two i j) all_cells) @
     concat (map distinct_clauses code_groups) \<and>
   length code_groups = 27 \<and>
   set code_groups =
     row_cells ` {1..9} \<union> col_cells ` {1..9} \<union> (\<lambda>(i, j). box_cells i j) ` ({1, 4, 7} \<times> {1, 4, 7}) \<and>
   (\<forall>g \<in> set code_groups.
      length g = 9 \<and> distinct g \<and>
      length (distinct_clauses g) = 324 \<and> distinct (distinct_clauses g) \<and>
      (\<forall>x \<in> set g. \<forall>y \<in> set g. \<forall>d \<in> {1..9}. x \<noteq> y \<longrightarrow>
         ([- v (fst x) (snd x) d, - v (fst y) (snd y) d] \<in> set (distinct_clauses g)) \<noteq>
         ([- v (fst y) (snd y) d, - v (fst x) (snd x) d] \<in> set (distinct_clauses g)))) \<and>
   (\<forall>i. set (row_cells i) = {i} \<times> {1..9}) \<and>
   (\<forall>j. set (col_cells j) = {1..9} \<times> {j}) \<and>
   (\<forall>i j. box_cells i j = map (\<lambda>k. (i + k mod 3, j + k div 3)) [0..8]) \<and>
   (\<lambda>(i, j). set (box_cells i j)) ` ({1, 4, 7} \<times> {1, 4, 7}) =
     (\<lambda>(a, b). {3 * a + 1..3 * a + 3} \<times> {3 * b + 1..3 * b + 3}) ` ({0..2} \<times> {0..2})"
proof (intro conjI)
  show "\<forall>cells res. valid cells res = res @ distinct_clauses cells"
    by (simp add: valid_eq)
  show "built_clauses =
     concat (map (\<lambda>(i, j). at_least_one i j # not_two i j) all_cells) @
     concat (map distinct_clauses code_groups)"
    by (rule built_clauses_eq)
  show "length code_groups = 27"
    by (rule length_code_groups)
  show "set code_groups =
     row_cells ` {1..9} \<union> col_cells ` {1..9} \<union> (\<lambda>(i, j). box_cells i j) ` ({1, 4, 7} \<times> {1, 4, 7})"
    unfolding set_code_groups set_box_groups ..
  show "\<forall>g \<in> set code_groups.
      length g = 9 \<and> distinct g \<and>
      length (distinct_clauses g) = 324 \<and> distinct (distinct_clauses g) \<and>
      (\<forall>x \<in> set g. \<forall>y \<in> set g. \<forall>d \<in> {1..9}. x \<noteq> y \<longrightarrow>
         ([- v (fst x) (snd x) d, - v (fst y) (snd y) d] \<in> set (distinct_clauses g)) \<noteq>
         ([- v (fst y) (snd y) d, - v (fst x) (snd x) d] \<in> set (distinct_clauses g)))"
  proof (intro ballI conjI impI)
    fix g assume g: "g \<in> set code_groups"
    show "length g = 9" using g by (rule code_groups_length_9)
    then show "length (distinct_clauses g) = 324" by (rule length_group_clauses)
    show "distinct g" using g by (rule code_groups_distinct)
    then show "distinct (distinct_clauses g)"
      using g by (intro distinct_distinct_clauses) (auto intro: code_groups_in_grid)
    fix x y :: "int \<times> int" and d :: int
    assume "x \<in> set g" "y \<in> set g" "d \<in> {1..9}" "x \<noteq> y"
    then show "([- v (fst x) (snd x) d, - v (fst y) (snd y) d] \<in> set (distinct_clauses g)) \<noteq>
         ([- v (fst y) (snd y) d, - v (fst x) (snd x) d] \<in> set (distinct_clauses g))"
      using group_orientation [OF g, of x y d] by simp
  qed
  show "\<forall>i. set (row_cells i) = {i} \<times> {1..9}"
    by (simp add: set_row_cells)
  show "\<forall>j. set (col_cells j) = {1..9} \<times> {j}"
    by (simp add: set_col_cells)
  show "\<forall>i j. box_cells i j = map (\<lambda>k. (i + k mod 3, j + k div 3)) [0..8]"
    by (simp add: box_cells_def range_py_def)
  show "(\<lambda>(i, j). set (box_cells i j)) ` ({1, 4, 7} \<times> {1, 4, 7}) =
     (\<lambda>(a, b). {3 * a + 1..3 * a + 3} \<times> {3 * b + 1..3 * b + 3}) ` ({0..2} \<times> {0..2})"
    by (rule boxes_are_blocks)
qed

theorem valid_groups_witness:
  "box_cells 4 7 \<in> set code_groups \<and> (5, 7) \<in> set (box_cells 4 7) \<and> (4, 9) \<in> set (box_cells 4 7) \<and>
   length (box_cells 4 7) = 9 \<and> length (distinct_clauses (box_cells 4 7)) = 324 \<and>
   [- v 5 7 3, - v 4 9 3] \<in> set (distinct_clauses (box_cells 4 7)) \<and>
   [- v 4 9 3, - v 5 7 3] \<notin> set (distinct_clauses (box_cells 4 7))"
proof -
  have g: "box_cells 4 7 \<in> set code_groups"
    by (simp add: set_code_groups set_box_groups)
  have x: "(5, 7) \<in> set (box_cells 4 7)" and y: "(4, 9) \<in> set (box_cells 4 7)"
    by (simp_all add: box_cells_list)
  have m: "((5, 7), (4, 9)) \<in> set (pairs (box_cells 4 7))"
    by (simp add: box_cells_list)
  have d: "(3::int) \<in> {1..9}" by simp
  have c: "[- v 5 7 3, - v 4 9 3] \<in> set (distinct_clauses (box_cells 4 7))"
    unfolding distinct_clauses_def set_concat set_map
    by (rule UN_I [OF imageI [OF m]]) simp
  note all = valid_groups [THEN conjunct2, THEN conjunct2, THEN conjunct2, THEN conjunct2,
    THEN conjunct1, THEN bspec, OF g]
  have len: "length (box_cells 4 7) = 9" and len': "length (distinct_clauses (box_cells 4 7)) = 324"
    using all by simp_all
  note one = all [THEN conjunct2, THEN conjunct2, THEN conjunct2, THEN conjunct2,
    THEN bspec, OF x, THEN bspec, OF y, THEN bspec, OF d]
  have "[- v 4 9 3, - v 5 7 3] \<notin> set (distinct_clauses (box_cells 4 7))"
    using one c by simp
  with g x y len len' c show ?thesis by simp
qed

section \<open>The clues\<close>

lemma for_each_append:
  assumes "\<And>x s. x \<in> set xs \<Longrightarrow> body x s = (None, s @ f x)"
  shows "for_each body xs s = (None, s @ concat (map f xs))"
  using assms by (induction xs arbitrary: s) simp_all

lemma getitem_in_range: "0 \<le> k \<Longrightarrow> k < int (length xs) \<Longrightarrow> getitem xs k = Inr (xs ! nat k)"
  by (simp add: getitem_def py_index_def)

lemma setitem_in_range: "0 \<le> k \<Longrightarrow> k < int (length xs) \<Longrightarrow> setitem xs k x = Inr (xs[nat k := x])"
  by (simp add: setitem_def py_index_def)

lemma shape_row_length:
  "shape_9x9 g \<Longrightarrow> 1 \<le> i \<Longrightarrow> i \<le> 9 \<Longrightarrow> length (g ! nat (i - 1)) = 9"
  unfolding shape_9x9_def by (simp add: nat_less_iff)

lemma add_clue_shape:
  assumes "shape_9x9 g" "1 \<le> i" "i \<le> 9" "1 \<le> j" "j \<le> 9"
  shows "add_clue g i j clauses =
    (None, clauses @ (if truthy (cell_at g (i, j)) then [[v i j (the (cell_at g (i, j)))]] else []))"
proof -
  have "getitem g (i - 1) = Inr (g ! nat (i - 1))"
    using assms by (intro getitem_in_range) (simp_all add: shape_9x9_def)
  moreover have "getitem (g ! nat (i - 1)) (j - 1) = Inr (g ! nat (i - 1) ! nat (j - 1))"
    using assms shape_row_length [of g i] by (intro getitem_in_range) simp_all
  ultimately show ?thesis
    by (simp add: add_clue_def cell_at_def)
qed

lemma concat_map_if_filter:
  "concat (map (\<lambda>x. if P x then [f x] else []) xs) = map f (filter P xs)"
  by (induction xs) simp_all

lemma clue_loop:
  assumes "shape_9x9 g"
  shows "for_each (\<lambda>i. for_each (\<lambda>j. add_clue g i j) (range_py 1 10)) (range_py 1 10) clauses =
    (None, clauses @ clue_clauses g)"
proof -
  let ?f = "\<lambda>i j. if truthy (cell_at g (i, j)) then [[v i j (the (cell_at g (i, j)))]] else []"
  have inner: "for_each (\<lambda>j. add_clue g i j) [1..9] s = (None, s @ concat (map (?f i) [1..9]))"
    if "i \<in> set [1..9]" for i s
    using that assms by (intro for_each_append) (simp add: add_clue_shape)
  have "for_each (\<lambda>i. for_each (\<lambda>j. add_clue g i j) [1..9]) [1..9] clauses =
      (None, clauses @ concat (map (\<lambda>i. concat (map (?f i) [1..9])) [1..9]))"
    by (rule for_each_append) (rule inner)
  also have "concat (map (\<lambda>i. concat (map (?f i) [1..9])) [1..9]) =
      concat (map (\<lambda>(i, j). ?f i j) all_cells)"
    unfolding all_cells_def concat_map_cells ..
  also have "\<dots> = clue_clauses g"
    unfolding clue_clauses_def
    using concat_map_if_filter [of "\<lambda>x. truthy (cell_at g x)" "\<lambda>(i, j). [v i j (the (cell_at g (i, j)))]" all_cells]
    by (simp add: split_def cong: if_cong)
  finally show ?thesis
    by (simp add: range_1_10_upto)
qed

lemma instance_clauses_eq:
  "shape_9x9 g \<Longrightarrow> instance_clauses g = Inr (built_clauses @ clue_clauses g)"
  by (simp add: instance_clauses_def sudoku_clauses_eq clue_loop)


lemma all_cells_list:
  "all_cells =
    [(1, 1), (1, 2), (1, 3), (1, 4), (1, 5), (1, 6), (1, 7), (1, 8), (1, 9),
     (2, 1), (2, 2), (2, 3), (2, 4), (2, 5), (2, 6), (2, 7), (2, 8), (2, 9),
     (3, 1), (3, 2), (3, 3), (3, 4), (3, 5), (3, 6), (3, 7), (3, 8), (3, 9),
     (4, 1), (4, 2), (4, 3), (4, 4), (4, 5), (4, 6), (4, 7), (4, 8), (4, 9),
     (5, 1), (5, 2), (5, 3), (5, 4), (5, 5), (5, 6), (5, 7), (5, 8), (5, 9),
     (6, 1), (6, 2), (6, 3), (6, 4), (6, 5), (6, 6), (6, 7), (6, 8), (6, 9),
     (7, 1), (7, 2), (7, 3), (7, 4), (7, 5), (7, 6), (7, 7), (7, 8), (7, 9),
     (8, 1), (8, 2), (8, 3), (8, 4), (8, 5), (8, 6), (8, 7), (8, 8), (8, 9),
     (9, 1), (9, 2), (9, 3), (9, 4), (9, 5), (9, 6), (9, 7), (9, 8), (9, 9)]"
  unfolding all_cells_def upto_1_9 by simp

lemma set_all_cells: "set all_cells = {1..9} \<times> {1..9}"
  unfolding all_cells_def by auto

lemma distinct_all_cells: "distinct all_cells"
  unfolding all_cells_list by simp

lemma shape_one_clue_grid: "shape_9x9 one_clue_grid"
  by (simp add: shape_9x9_def one_clue_grid_def blank_row_def)

lemma clue_clauses_one_clue_grid: "clue_clauses one_clue_grid = [[v 1 2 2]]"
  unfolding clue_clauses_def all_cells_list
  by (simp add: cell_at_def one_clue_grid_def blank_row_def truthy_def)

text \<open>
  C5: for a 9x9 grid, the clue loop of \<open>solve\<close> leaves the base clauses as they are and
  appends after them one unit clause \<open>[v(i, j, d)]\<close> for every cell \<open>(i, j)\<close> (1-based; the
  81 cells, each visited once) that holds a nonzero digit \<open>d\<close>, and nothing for the others.
\<close>

theorem clue_injection:
  assumes "shape_9x9 g"
  shows "instance_clauses g = Inr (built_clauses @ clue_clauses g) \<and>
    clue_clauses g =
      map (\<lambda>(i, j). [v i j (the (cell_at g (i, j)))]) (filter (\<lambda>x. truthy (cell_at g x)) all_cells) \<and>
    length (clue_clauses g) = length (filter (\<lambda>x. truthy (cell_at g x)) all_cells) \<and>
    distinct all_cells \<and> set all_cells = {1..9} \<times> {1..9}"
  using instance_clauses_eq [OF assms] distinct_all_cells set_all_cells
  by (simp add: clue_clauses_def)

theorem clue_injection_witness:
  "shape_9x9 one_clue_grid \<and>
   instance_clauses one_clue_grid = Inr (built_clauses @ [[11]]) \<and>
   length (filter (\<lambda>x. truthy (cell_at one_clue_grid x)) all_cells) = 1"
  using clue_injection [OF shape_one_clue_grid] shape_one_clue_grid
  by (simp add: clue_clauses_one_clue_grid v_def)

section \<open>Completed grids, group by group\<close>

lemma upt_0_9: "[0..<9] = [0, 1, 2, 3, 4, 5, 6, 7, 8]"
  by (simp add: upt_rec)

lemma upt_0_3: "[0..<3] = [0, 1, 2]"
  by (simp add: upt_rec)

lemma row_groups_mset:
  "map (\<lambda>gr. mset (map (cell_at G) gr)) (map row_cells [1..9]) = map mset (grid_rows G)"
  unfolding grid_rows_def upt_0_9 upto_1_9 row_cells_def range_1_10
  by (simp add: cell_at_def)

lemma col_groups_mset:
  "map (\<lambda>gr. mset (map (cell_at G) gr)) (map col_cells [1..9]) = map mset (grid_cols G)"
  unfolding grid_cols_def upt_0_9 upto_1_9 col_cells_def range_1_10
  by (simp add: cell_at_def)

lemma box_groups_mset:
  "map (\<lambda>gr. mset (map (cell_at G) gr)) box_groups = map mset (grid_boxes G)"
  unfolding grid_boxes_def upt_0_3 box_groups_def box_cells_list
  by (simp add: cell_at_def eval_nat_numeral)

lemma spec_groups_mset:
  "map (\<lambda>gr. mset (map (cell_at G) gr)) spec_groups =
   map mset (grid_rows G @ grid_cols G @ grid_boxes G)"
  unfolding spec_groups_def
  using row_groups_mset [of G] col_groups_mset [of G] box_groups_mset [of G] by simp


lemma valid_sudoku_groups:
  "valid_sudoku G \<longleftrightarrow>
   shape_9x9 G \<and> (\<forall>gr \<in> set code_groups. is_permutation_1_9 (map (cell_at G) gr))"
proof -
  let ?M = "mset (map Some [1..9])"
  have "(\<forall>u \<in> set (grid_rows G @ grid_cols G @ grid_boxes G). mset u = ?M) \<longleftrightarrow>
      (\<forall>m \<in> set (map mset (grid_rows G @ grid_cols G @ grid_boxes G)). m = ?M)"
    by (simp only: set_map ball_simps)
  also have "\<dots> \<longleftrightarrow> (\<forall>m \<in> set (map (\<lambda>gr. mset (map (cell_at G) gr)) spec_groups). m = ?M)"
    unfolding spec_groups_mset ..
  also have "\<dots> \<longleftrightarrow> (\<forall>gr \<in> set spec_groups. mset (map (cell_at G) gr) = ?M)"
    by (simp only: set_map ball_simps)
  finally show ?thesis
    unfolding valid_sudoku_def is_permutation_1_9_def set_spec_groups by simp
qed

lemma distinct_digits: "distinct (map Some [1..9::int])"
  by (simp add: distinct_map)

lemma permutation_1_9_I:
  assumes "length xs = 9" "distinct xs" "set xs \<subseteq> Some ` {1..9}"
  shows "is_permutation_1_9 xs"
proof -
  have "card (set xs) = 9"
    using assms(1,2) by (simp add: distinct_card)
  moreover have "card (Some ` {1..9::int}) = 9"
    by (simp add: card_image)
  ultimately have "set xs = Some ` {1..9}"
    using assms(3) by (intro card_subset_eq) simp_all
  then have "set xs = set (map Some [1..9])"
    by simp
  then show ?thesis
    unfolding is_permutation_1_9_def
    using assms(2) distinct_digits by (simp only: set_eq_iff_mset_eq_distinct)
qed

lemma permutation_1_9_D:
  assumes "is_permutation_1_9 xs"
  shows "distinct xs" and "set xs = Some ` {1..9}"
proof -
  have m: "mset xs = mset (map Some [1..9])"
    using assms by (simp add: is_permutation_1_9_def)
  show "distinct xs"
    using mset_eq_imp_distinct_iff [OF m] distinct_digits by simp
  show "set xs = Some ` {1..9}"
    using mset_eq_setD [OF m] by simp
qed


section \<open>What a satisfying valuation says\<close>

lemma set_built_clauses:
  "set built_clauses =
     (\<Union>x \<in> set all_cells. insert (at_least_one (fst x) (snd x)) (set (not_two (fst x) (snd x)))) \<union>
     (\<Union>g \<in> set code_groups. set (distinct_clauses g))"
  unfolding built_clauses_eq by (auto simp: split_def)

lemma in_grid_all_cells: "in_grid x \<longleftrightarrow> x \<in> set all_cells"
  unfolding set_all_cells in_grid_def by (cases x) auto

lemma v_pos: "in_grid x \<Longrightarrow> 1 \<le> d \<Longrightarrow> d \<le> 9 \<Longrightarrow> 0 < v (fst x) (snd x) d"
  unfolding in_grid_def v_def by simp

lemma lit_true_pos: "0 < x \<Longrightarrow> lit_true val x \<longleftrightarrow> val x"
  and lit_true_neg: "0 < x \<Longrightarrow> lit_true val (- x) \<longleftrightarrow> \<not> val x"
  by (simp_all add: lit_true_def)

lemma val_at_least_one:
  assumes "\<forall>c \<in> set built_clauses. clause_true val c" "in_grid x"
  shows "\<exists>d \<in> {1..9}. val (v (fst x) (snd x) d)"
proof -
  have "at_least_one (fst x) (snd x) \<in> set built_clauses"
    using assms(2) unfolding set_built_clauses in_grid_all_cells by blast
  then have "clause_true val (at_least_one (fst x) (snd x))"
    using assms(1) by blast
  then obtain d where d: "d \<in> {1..9}" "lit_true val (v (fst x) (snd x) d)"
    unfolding clause_true_def at_least_one_def by auto
  then have "val (v (fst x) (snd x) d)"
    using lit_true_pos [OF v_pos [OF assms(2), of d]] by simp
  with d show ?thesis by blast
qed

lemma val_not_two:
  assumes "\<forall>c \<in> set built_clauses. clause_true val c" "in_grid x"
    and "d \<in> {1..9}" "d' \<in> {1..9}" "d \<noteq> d'"
    and "val (v (fst x) (snd x) d)" "val (v (fst x) (snd x) d')"
  shows False
proof -
  have pos: "0 < v (fst x) (snd x) d" "0 < v (fst x) (snd x) d'"
    using assms(2-4) by (simp_all add: v_pos)
  have in_nt: "c \<in> set built_clauses" if "c \<in> set (not_two (fst x) (snd x))" for c
    using that assms(2) unfolding set_built_clauses in_grid_all_cells by blast
  have "(d, d') \<in> set (pairs [1..9]) \<or> (d', d) \<in> set (pairs [1..9])"
    using assms(3-5) by (intro pairs_total) simp_all
  then have "[- v (fst x) (snd x) d, - v (fst x) (snd x) d'] \<in> set (not_two (fst x) (snd x)) \<or>
      [- v (fst x) (snd x) d', - v (fst x) (snd x) d] \<in> set (not_two (fst x) (snd x))"
    unfolding not_two_def by force
  then have "clause_true val [- v (fst x) (snd x) d, - v (fst x) (snd x) d'] \<or>
      clause_true val [- v (fst x) (snd x) d', - v (fst x) (snd x) d]"
    using in_nt assms(1) by blast
  then show False
    using assms(6,7) pos by (auto simp: clause_true_def lit_true_neg)
qed

lemma val_distinct:
  assumes "\<forall>c \<in> set built_clauses. clause_true val c" "g \<in> set code_groups"
    and "x \<in> set g" "y \<in> set g" "x \<noteq> y" "d \<in> {1..9}"
    and "val (v (fst x) (snd x) d)" "val (v (fst y) (snd y) d)"
  shows False
proof -
  have ig: "\<forall>z \<in> set g. in_grid z"
    using assms(2) code_groups_in_grid by blast
  have x: "in_grid x" and y: "in_grid y"
    using ig assms(3,4) by blast+
  have d: "1 \<le> d" "d \<le> 9"
    using assms(6) by simp_all
  have pos: "0 < v (fst x) (snd x) d" "0 < v (fst y) (snd y) d"
    using x y d by (simp_all add: v_pos)
  have in_dc: "c \<in> set built_clauses" if "c \<in> set (distinct_clauses g)" for c
    using that assms(2) unfolding set_built_clauses by blast
  have "(x, y) \<in> set (pairs g) \<or> (y, x) \<in> set (pairs g)"
    using assms(3-5) by (rule pairs_total)
  then have "[- v (fst x) (snd x) d, - v (fst y) (snd y) d] \<in> set (distinct_clauses g) \<or>
      [- v (fst y) (snd y) d, - v (fst x) (snd x) d] \<in> set (distinct_clauses g)"
    using distinct_clauses_mem [OF ig x y d] distinct_clauses_mem [OF ig y x d] by simp
  then have "clause_true val [- v (fst x) (snd x) d, - v (fst y) (snd y) d] \<or>
      clause_true val [- v (fst y) (snd y) d, - v (fst x) (snd x) d]"
    using in_dc assms(1) by blast
  then show False
    using assms(7,8) pos by (auto simp: clause_true_def lit_true_neg)
qed

section \<open>From a valuation to a grid\<close>

lemma nth_1_9: "1 \<le> i \<Longrightarrow> i \<le> 9 \<Longrightarrow> [1..9] ! nat (i - 1) = i"
  by (simp add: nth_upto)

lemma shape_decode_val: "shape_9x9 (decode_val val)"
  by (auto simp: shape_9x9_def decode_val_def)

lemma cell_at_decode_val:
  assumes "in_grid x"
  shows "cell_at (decode_val val) x = List.find (\<lambda>d. val (v (fst x) (snd x) d)) [1..9]"
proof -
  have "nat (fst x - 1) < length [1..9::int]" "nat (snd x - 1) < length [1..9::int]"
    using assms by (simp_all add: in_grid_def nat_less_iff)
  then show ?thesis
    using assms by (simp add: cell_at_def decode_val_def nth_1_9 in_grid_def)
qed

lemma find_SomeD: "List.find P xs = Some d \<Longrightarrow> d \<in> set xs \<and> P d"
  by (induction xs) (auto split: if_splits)

lemma decode_val_digit:
  assumes "\<forall>c \<in> set built_clauses. clause_true val c" "in_grid x"
  shows "cell_at (decode_val val) x = Some d \<longleftrightarrow> d \<in> {1..9} \<and> val (v (fst x) (snd x) d)"
proof
  assume "cell_at (decode_val val) x = Some d"
  then show "d \<in> {1..9} \<and> val (v (fst x) (snd x) d)"
    using find_SomeD [of "\<lambda>d. val (v (fst x) (snd x) d)" "[1..9]" d] assms(2)
    by (simp add: cell_at_decode_val)
next
  assume d: "d \<in> {1..9} \<and> val (v (fst x) (snd x) d)"
  then have "List.find (\<lambda>d. val (v (fst x) (snd x) d)) [1..9] \<noteq> None"
    by (auto simp: find_None_iff)
  then obtain d' where d': "cell_at (decode_val val) x = Some d'"
    using assms(2) by (auto simp: cell_at_decode_val)
  then have "d' \<in> {1..9} \<and> val (v (fst x) (snd x) d')"
    using find_SomeD [of "\<lambda>d. val (v (fst x) (snd x) d)" "[1..9]" d'] assms(2)
    by (simp add: cell_at_decode_val)
  then have "d' = d"
    using val_not_two [OF assms, of d' d] d by blast
  with d' show "cell_at (decode_val val) x = Some d" by simp
qed

lemma decode_val_some:
  assumes "\<forall>c \<in> set built_clauses. clause_true val c" "in_grid x"
  shows "\<exists>d \<in> {1..9}. cell_at (decode_val val) x = Some d"
  using val_at_least_one [OF assms] decode_val_digit [OF assms] by blast

lemma valid_decode_val:
  assumes "\<forall>c \<in> set built_clauses. clause_true val c"
  shows "valid_sudoku (decode_val val)"
  unfolding valid_sudoku_groups
proof (intro conjI ballI)
  show "shape_9x9 (decode_val val)" by (rule shape_decode_val)
  fix g assume g: "g \<in> set code_groups"
  let ?D = "decode_val val"
  show "is_permutation_1_9 (map (cell_at ?D) g)"
  proof (rule permutation_1_9_I)
    show "length (map (cell_at ?D) g) = 9"
      using g by (simp add: code_groups_length_9)
    show "set (map (cell_at ?D) g) \<subseteq> Some ` {1..9}"
      using decode_val_some [OF assms code_groups_in_grid [OF g]] by auto
    show "distinct (map (cell_at ?D) g)"
      unfolding distinct_map_pairs
    proof (intro ballI, clarify)
      fix a b assume ab: "(a, b) \<in> set (pairs g)" and eq: "cell_at ?D a = cell_at ?D b"
      have a: "a \<in> set g" and b: "b \<in> set g"
        using pairs_subset [OF ab] by simp_all
      have ne: "a \<noteq> b"
        using pairs_distinct_neq [OF code_groups_distinct [OF g] ab] .
      obtain d where d: "d \<in> {1..9}" "cell_at ?D a = Some d"
        using decode_val_some [OF assms code_groups_in_grid [OF g a]] by blast
      then have "val (v (fst a) (snd a) d)" "val (v (fst b) (snd b) d)"
        using decode_val_digit [OF assms code_groups_in_grid [OF g a], of d]
          decode_val_digit [OF assms code_groups_in_grid [OF g b], of d] eq by simp_all
      then show False
        using val_distinct [OF assms g a b ne d(1)] by simp
    qed
  qed
qed

lemma cell_at_nat: "cell_at g (int i + 1, int j + 1) = g ! i ! j"
  by (simp add: cell_at_def)

lemma in_grid_nat: "i < 9 \<Longrightarrow> j < 9 \<Longrightarrow> in_grid (int i + 1, int j + 1)"
  by (simp add: in_grid_def)

lemma wf_grid_cell:
  assumes "wf_grid g" "i < 9" "j < 9"
  shows "g ! i ! j \<in> Some ` {0..9}"
proof -
  have "g ! i \<in> set g" using assms by (simp add: wf_grid_def shape_9x9_def)
  moreover from this have "g ! i ! j \<in> set (g ! i)"
    using assms by (simp add: wf_grid_def shape_9x9_def)
  ultimately show ?thesis
    using assms(1) unfolding wf_grid_def by blast
qed

lemma clue_clause_mem:
  assumes "in_grid x" "cell_at g x = Some d" "d \<noteq> 0"
  shows "[v (fst x) (snd x) d] \<in> set (clue_clauses g)"
proof -
  have "x \<in> set (filter (\<lambda>x. truthy (cell_at g x)) all_cells)"
    using assms by (simp add: in_grid_all_cells truthy_def)
  then have "(\<lambda>(i, j). [v i j (the (cell_at g (i, j)))]) x \<in> set (clue_clauses g)"
    unfolding clue_clauses_def by (simp only: set_map) (rule imageI)
  then show ?thesis
    using assms(2) by (simp add: split_def)
qed

lemma keeps_clues_decode_val:
  assumes base: "\<forall>c \<in> set built_clauses. clause_true val c"
    and clues: "\<forall>c \<in> set (clue_clauses g). clause_true val c"
    and wf: "wf_grid g"
  shows "keeps_clues g (decode_val val)"
  unfolding keeps_clues_def
proof (intro ballI impI)
  fix i j assume "i \<in> {0..<9}" "j \<in> {0..<9}" and nz: "g ! i ! j \<noteq> Some 0"
  then have ij: "i < 9" "j < 9" by simp_all
  let ?x = "(int i + 1, int j + 1)"
  have x: "in_grid ?x" using ij by (rule in_grid_nat)
  obtain d where d: "g ! i ! j = Some d" "d \<in> {0..9}"
    using wf_grid_cell [OF wf ij] by auto
  with nz have d19: "d \<in> {1..9}" by auto
  have "[v (fst ?x) (snd ?x) d] \<in> set (clue_clauses g)"
    using d nz by (intro clue_clause_mem [OF x]) (simp_all add: cell_at_nat)
  then have "clause_true val [v (fst ?x) (snd ?x) d]"
    using clues by blast
  then have "val (v (fst ?x) (snd ?x) d)"
    using lit_true_pos [OF v_pos [OF x, of d]] d19 by (simp add: clause_true_def)
  then have "cell_at (decode_val val) ?x = Some d"
    using decode_val_digit [OF base x, of d] d19 by simp
  then show "decode_val val ! i ! j = g ! i ! j"
    using d by (simp add: cell_at_nat)
qed

section \<open>From a grid to a satisfying assignment\<close>

lemma satisfies_clause_true:
  assumes "satisfies m cs" "c \<in> set cs"
  shows "clause_true (\<lambda>x. x \<in> set m) c"
proof -
  obtain l where l: "l \<in> set c" "l \<in> set m"
    using assms unfolding satisfies_def by blast
  have "- l \<notin> set m"
    using assms(1) l(2) unfolding satisfies_def consistent_def by blast
  then have "lit_true (\<lambda>x. x \<in> set m) l"
    using l(2) unfolding lit_true_def by (cases "0 < l"; cases "l < 0") auto
  with l(1) show ?thesis
    unfolding clause_true_def by blast
qed

lemma satisfies_satisfiable: "satisfies m cs \<Longrightarrow> satisfiable cs"
  unfolding satisfiable_def using satisfies_clause_true by blast

lemma set_model_of_grid:
  "set (model_of_grid G) =
    (\<Union>x \<in> set all_cells. (\<lambda>d. if cell_at G x = Some d then v (fst x) (snd x) d
       else - v (fst x) (snd x) d) ` {1..9})"
  unfolding model_of_grid_def by (auto simp: split_def)

lemma model_of_grid_pos:
  assumes "in_grid x" "d \<in> {1..9}"
  shows "v (fst x) (snd x) d \<in> set (model_of_grid G) \<longleftrightarrow> cell_at G x = Some d"
proof
  assume "v (fst x) (snd x) d \<in> set (model_of_grid G)"
  then obtain x' d' where x': "in_grid x'" "d' \<in> {1..9}"
    and eq: "v (fst x) (snd x) d =
      (if cell_at G x' = Some d' then v (fst x') (snd x') d' else - v (fst x') (snd x') d')"
    unfolding set_model_of_grid in_grid_all_cells by auto
  have pos: "0 < v (fst x) (snd x) d" "0 < v (fst x') (snd x') d'"
    using assms x' by (simp_all add: v_pos)
  with eq have c: "cell_at G x' = Some d'" and e: "v (fst x) (snd x) d = v (fst x') (snd x') d'"
    by (auto split: if_splits)
  have "fst x = fst x' \<and> snd x = snd x' \<and> d = d'"
    using e assms x' v_inject [of "snd x" d "snd x'" d' "fst x" "fst x'"]
    by (simp add: in_grid_def)
  then have "x = x' \<and> d = d'"
    by (simp add: prod_eq_iff)
  with c show "cell_at G x = Some d"
    by simp
next
  assume "cell_at G x = Some d"
  then show "v (fst x) (snd x) d \<in> set (model_of_grid G)"
    unfolding set_model_of_grid using assms
    by (intro UN_I [of x] image_eqI [of _ _ d]) (simp_all add: in_grid_all_cells)
qed

lemma model_of_grid_neg:
  assumes "in_grid x" "d \<in> {1..9}"
  shows "- v (fst x) (snd x) d \<in> set (model_of_grid G) \<longleftrightarrow> cell_at G x \<noteq> Some d"
proof
  assume "- v (fst x) (snd x) d \<in> set (model_of_grid G)"
  then obtain x' d' where x': "in_grid x'" "d' \<in> {1..9}"
    and eq: "- v (fst x) (snd x) d =
      (if cell_at G x' = Some d' then v (fst x') (snd x') d' else - v (fst x') (snd x') d')"
    unfolding set_model_of_grid in_grid_all_cells by auto
  have pos: "0 < v (fst x) (snd x) d" "0 < v (fst x') (snd x') d'"
    using assms x' by (simp_all add: v_pos)
  with eq have c: "cell_at G x' \<noteq> Some d'" and e: "v (fst x) (snd x) d = v (fst x') (snd x') d'"
    by (auto split: if_splits)
  have "fst x = fst x' \<and> snd x = snd x' \<and> d = d'"
    using e assms x' v_inject [of "snd x" d "snd x'" d' "fst x" "fst x'"]
    by (simp add: in_grid_def)
  then have "x = x' \<and> d = d'"
    by (simp add: prod_eq_iff)
  with c show "cell_at G x \<noteq> Some d"
    by simp
next
  assume "cell_at G x \<noteq> Some d"
  then show "- v (fst x) (snd x) d \<in> set (model_of_grid G)"
    unfolding set_model_of_grid using assms
    by (intro UN_I [of x] image_eqI [of _ _ d]) (simp_all add: in_grid_all_cells)
qed

lemma consistent_model_of_grid: "consistent (model_of_grid G)"
  unfolding consistent_def
proof (intro ballI notI)
  fix l assume l: "l \<in> set (model_of_grid G)" and nl: "- l \<in> set (model_of_grid G)"
  from l obtain x d where x: "in_grid x" "d \<in> {1..9}"
    and eq: "l = (if cell_at G x = Some d then v (fst x) (snd x) d else - v (fst x) (snd x) d)"
    unfolding set_model_of_grid in_grid_all_cells by auto
  show False
  proof (cases "cell_at G x = Some d")
    case True
    with eq nl have "- v (fst x) (snd x) d \<in> set (model_of_grid G)" by simp
    with True show False using model_of_grid_neg [OF x] by simp
  next
    case False
    with eq nl have "v (fst x) (snd x) d \<in> set (model_of_grid G)" by simp
    with False show False using model_of_grid_pos [OF x] by simp
  qed
qed


lemma valid_cell_digit:
  assumes "valid_sudoku G" "in_grid x"
  shows "cell_at G x \<in> Some ` {1..9}"
proof -
  have g: "row_cells (fst x) \<in> set code_groups"
    using assms(2) unfolding set_code_groups in_grid_def by simp
  have "x \<in> set (row_cells (fst x))"
    using assms(2) unfolding set_row_cells in_grid_def by (cases x) simp
  then have "cell_at G x \<in> set (map (cell_at G) (row_cells (fst x)))"
    by simp
  moreover have "is_permutation_1_9 (map (cell_at G) (row_cells (fst x)))"
    using assms(1) g unfolding valid_sudoku_groups by blast
  ultimately show ?thesis
    using permutation_1_9_D(2) by blast
qed

lemma valid_group_distinct:
  assumes "valid_sudoku G" "g \<in> set code_groups" "x \<in> set g" "y \<in> set g" "x \<noteq> y"
  shows "cell_at G x \<noteq> cell_at G y"
proof -
  have "is_permutation_1_9 (map (cell_at G) g)"
    using assms(1,2) unfolding valid_sudoku_groups by blast
  then have "distinct (map (cell_at G) g)"
    by (rule permutation_1_9_D(1))
  then have "inj_on (cell_at G) (set g)"
    by (simp add: distinct_map)
  then show ?thesis
    using assms(3-5) by (auto dest: inj_onD)
qed

lemma model_satisfies_base:
  assumes "valid_sudoku G" "c \<in> set built_clauses"
  shows "\<exists>l \<in> set c. l \<in> set (model_of_grid G)"
proof -
  consider x where "x \<in> set all_cells" "c = at_least_one (fst x) (snd x)"
    | x where "x \<in> set all_cells" "c \<in> set (not_two (fst x) (snd x))"
    | g where "g \<in> set code_groups" "c \<in> set (distinct_clauses g)"
    using assms(2) unfolding set_built_clauses by blast
  then show ?thesis
  proof cases
    case 1
    then have x: "in_grid x" by (simp add: in_grid_all_cells)
    obtain d where d: "d \<in> {1..9}" "cell_at G x = Some d"
      using valid_cell_digit [OF assms(1) x] by auto
    then have "v (fst x) (snd x) d \<in> set (model_of_grid G)"
      using model_of_grid_pos [OF x d(1)] by simp
    moreover have "v (fst x) (snd x) d \<in> set c"
      using d(1) unfolding 1(2) at_least_one_def by simp
    ultimately show ?thesis by blast
  next
    case 2
    then have x: "in_grid x" by (simp add: in_grid_all_cells)
    obtain d d' where dd: "(d, d') \<in> set (pairs [1..9])"
      and c: "c = [- v (fst x) (snd x) d, - v (fst x) (snd x) d']"
      using 2(2) unfolding not_two_def by auto
    have d: "d \<in> {1..9}" "d' \<in> {1..9}"
      using pairs_subset [OF dd] by simp_all
    have "d \<noteq> d'"
      using pairs_distinct_neq [OF _ dd] by simp
    then have "cell_at G x \<noteq> Some d \<or> cell_at G x \<noteq> Some d'"
      by auto
    then have "- v (fst x) (snd x) d \<in> set (model_of_grid G) \<or>
        - v (fst x) (snd x) d' \<in> set (model_of_grid G)"
      using model_of_grid_neg [OF x] d by simp
    then show ?thesis unfolding c by auto
  next
    case 3
    obtain x y d where xy: "(x, y) \<in> set (pairs g)" and d: "d \<in> {1..9}"
      and c: "c = [- v (fst x) (snd x) d, - v (fst y) (snd y) d]"
      using 3(2) unfolding distinct_clauses_def by auto
    have m: "x \<in> set g" "y \<in> set g"
      using pairs_subset [OF xy] by simp_all
    have "x \<noteq> y"
      using pairs_distinct_neq [OF code_groups_distinct [OF 3(1)] xy] .
    then have "cell_at G x \<noteq> cell_at G y"
      using valid_group_distinct [OF assms(1) 3(1) m] by simp
    then have "cell_at G x \<noteq> Some d \<or> cell_at G y \<noteq> Some d"
      by auto
    then have "- v (fst x) (snd x) d \<in> set (model_of_grid G) \<or>
        - v (fst y) (snd y) d \<in> set (model_of_grid G)"
      using model_of_grid_neg [OF code_groups_in_grid [OF 3(1)] d] m by simp
    then show ?thesis unfolding c by auto
  qed
qed

lemma wf_grid_cell_at:
  assumes "wf_grid g" "in_grid x"
  shows "cell_at g x \<in> Some ` {0..9}"
proof -
  have "nat (fst x - 1) < 9" "nat (snd x - 1) < 9"
    using assms(2) unfolding in_grid_def by linarith+
  then show ?thesis
    unfolding cell_at_def by (rule wf_grid_cell [OF assms(1)])
qed

lemma keeps_clues_cell_at:
  assumes "keeps_clues g G" "in_grid x" "cell_at g x \<noteq> Some 0"
  shows "cell_at G x = cell_at g x"
proof -
  have "nat (fst x - 1) < 9" "nat (snd x - 1) < 9"
    using assms(2) unfolding in_grid_def by linarith+
  then have "nat (fst x - 1) \<in> {0..<9}" "nat (snd x - 1) \<in> {0..<9}"
    by simp_all
  then show ?thesis
    using assms(1,3) unfolding keeps_clues_def cell_at_def by blast
qed

lemma model_satisfies_clues:
  assumes "keeps_clues g G" "wf_grid g" "c \<in> set (clue_clauses g)"
  shows "\<exists>l \<in> set c. l \<in> set (model_of_grid G)"
proof -
  obtain x where x: "x \<in> set all_cells" "truthy (cell_at g x)"
    and c: "c = [v (fst x) (snd x) (the (cell_at g x))]"
    using assms(3) unfolding clue_clauses_def by (auto simp: split_def)
  have ig: "in_grid x" using x(1) by (simp add: in_grid_all_cells)
  obtain d where d: "cell_at g x = Some d" "d \<in> {0..9}"
    using wf_grid_cell_at [OF assms(2) ig] by auto
  have nz: "d \<noteq> 0" using x(2) d(1) by (simp add: truthy_def)
  then have "cell_at G x = Some d"
    using keeps_clues_cell_at [OF assms(1) ig] d(1) by simp
  then have "v (fst x) (snd x) d \<in> set (model_of_grid G)"
    using model_of_grid_pos [OF ig, of d] d(2) nz by simp
  then show ?thesis unfolding c d(1) by simp
qed

lemma model_of_grid_satisfies:
  assumes "valid_sudoku G" "keeps_clues g G" "wf_grid g"
  shows "satisfies (model_of_grid G) (built_clauses @ clue_clauses g)"
  unfolding satisfies_def
  using consistent_model_of_grid model_satisfies_base [OF assms(1)]
    model_satisfies_clues [OF assms(2,3)]
  by auto


section \<open>The example grids\<close>

lemma wf_one_clue_grid: "wf_grid one_clue_grid"
  by (simp add: wf_grid_def shape_9x9_def one_clue_grid_def blank_row_def)

lemma valid_solved_grid: "valid_sudoku solved_grid"
  unfolding valid_sudoku_def shape_9x9_def is_permutation_1_9_def grid_rows_def grid_cols_def
    grid_boxes_def upt_0_9 upt_0_3 upto_1_9
  by (simp add: solved_grid_def)

lemma ball_upt_0_9: "(\<forall>i \<in> {0..<9::nat}. P i) \<longleftrightarrow> list_all P [0, 1, 2, 3, 4, 5, 6, 7, 8]"
  unfolding atLeastLessThan_upt upt_0_9 by (simp only: list_all_iff)

lemma keeps_clues_solved_grid: "keeps_clues one_clue_grid solved_grid"
  unfolding keeps_clues_def ball_upt_0_9
  by (simp add: one_clue_grid_def blank_row_def solved_grid_def)

lemma has_completion_one_clue_grid: "has_completion one_clue_grid"
  unfolding has_completion_def
  using valid_solved_grid keeps_clues_solved_grid by blast

text \<open>
  C1: for every 9x9 grid of digits in 0..9, the clause list \<open>solve\<close> hands to the solver
  (the base clauses followed by one unit clause per nonzero cell) is satisfiable if and
  only if the grid has a completion: a grid whose rows, columns and 3x3 boxes are
  permutations of 1..9 and which keeps every nonzero cell.
\<close>

theorem encoding_equisatisfiable:
  assumes "wf_grid g"
  shows "\<exists>cs. instance_clauses g = Inr cs \<and> cs = built_clauses @ clue_clauses g \<and>
    (satisfiable cs \<longleftrightarrow> has_completion g)"
proof -
  have shape: "shape_9x9 g"
    using assms by (simp add: wf_grid_def)
  have "satisfiable (built_clauses @ clue_clauses g) \<longleftrightarrow> has_completion g"
  proof
    assume "satisfiable (built_clauses @ clue_clauses g)"
    then obtain val where val: "\<forall>c \<in> set (built_clauses @ clue_clauses g). clause_true val c"
      unfolding satisfiable_def by blast
    then have base: "\<forall>c \<in> set built_clauses. clause_true val c"
      and clues: "\<forall>c \<in> set (clue_clauses g). clause_true val c"
      by simp_all
    have "valid_sudoku (decode_val val)"
      using base by (rule valid_decode_val)
    moreover have "keeps_clues g (decode_val val)"
      using base clues assms by (rule keeps_clues_decode_val)
    ultimately show "has_completion g"
      unfolding has_completion_def by blast
  next
    assume "has_completion g"
    then obtain G where "valid_sudoku G" "keeps_clues g G"
      unfolding has_completion_def by blast
    then have "satisfies (model_of_grid G) (built_clauses @ clue_clauses g)"
      using assms by (intro model_of_grid_satisfies)
    then show "satisfiable (built_clauses @ clue_clauses g)"
      by (rule satisfies_satisfiable)
  qed
  then show ?thesis
    using instance_clauses_eq [OF shape] by simp
qed

theorem encoding_equisatisfiable_witness:
  "wf_grid one_clue_grid \<and> has_completion one_clue_grid \<and>
   instance_clauses one_clue_grid = Inr (built_clauses @ [[11]]) \<and>
   satisfiable (built_clauses @ [[11]])"
  using encoding_equisatisfiable [OF wf_one_clue_grid] wf_one_clue_grid
    has_completion_one_clue_grid
  by (simp add: clue_clauses_one_clue_grid v_def)

section \<open>Reading the grid back\<close>

lemma read_cell_loop_Model:
  "read_cell_loop (Model m) i j ds = Inr (List.find (\<lambda>d. v i j d \<in> set m) ds)"
  by (induction ds) (simp_all add: py_in_def)

lemma read_cell_Model: "read_cell (Model m) i j = Inr (List.find (\<lambda>d. v i j d \<in> set m) [1..9])"
  by (simp add: read_cell_def read_cell_loop_Model range_1_10_upto)

lemma for_each_fold:
  assumes "\<And>x s. x \<in> set xs \<Longrightarrow> Inv s \<Longrightarrow> body x s = (None, upd x s) \<and> Inv (upd x s)"
    and "Inv s"
  shows "for_each body xs s = (None, fold upd xs s)"
  using assms by (induction xs arbitrary: s) simp_all

lemma length_9_list:
  "length xs = 9 \<Longrightarrow> \<exists>a b c d e f g h i. xs = [a, b, c, d, e, f, g, h, i]"
  by (auto simp: eval_nat_numeral length_Suc_conv)

lemma update_all_9:
  assumes "length xs = 9"
  shows "fold (\<lambda>j row. row[nat (j - 1) := f j]) [1, 2, 3, 4, 5, 6, 7, 8, 9] xs = map f [1, 2, 3, 4, 5, 6, 7, 8, 9]"
proof -
  obtain a b c d e f' g h i where "xs = [a, b, c, d, e, f', g, h, i]"
    using length_9_list [OF assms] by blast
  then show ?thesis
    by (simp add: eval_nat_numeral)
qed

lemma store_cell_Model:
  assumes "nat (i - 1) < length g" "1 \<le> i" "1 \<le> j" "nat (j - 1) < length (g ! nat (i - 1))"
  shows "store_cell (Model m) i j g =
    (None, g[nat (i - 1) := (g ! nat (i - 1))[nat (j - 1) := List.find (\<lambda>d. v i j d \<in> set m) [1..9]]])"
proof -
  have "getitem g (i - 1) = Inr (g ! nat (i - 1))"
    using assms by (intro getitem_in_range) simp_all
  moreover have "setitem (g ! nat (i - 1)) (j - 1) x = Inr ((g ! nat (i - 1))[nat (j - 1) := x])" for x
    using assms by (intro setitem_in_range) simp_all
  ultimately show ?thesis
    by (simp add: store_cell_def read_cell_Model)
qed

lemma store_row_Model:
  assumes "shape_9x9 g" "1 \<le> i" "i \<le> 9"
  shows "for_each (\<lambda>j. store_cell (Model m) i j) [1..9] g =
    (None, g[nat (i - 1) := map (\<lambda>j. List.find (\<lambda>d. v i j d \<in> set m) [1..9]) [1..9]])"
proof -
  let ?n = "nat (i - 1)"
  let ?f = "\<lambda>j. List.find (\<lambda>d. v i j d \<in> set m) [1..9]"
  let ?upd = "\<lambda>j g. g[?n := (g ! ?n)[nat (j - 1) := ?f j]]"
  let ?Inv = "\<lambda>g::grid. length g = 9 \<and> length (g ! ?n) = 9"
  have n: "?n < 9" using assms(2,3) by linarith
  have inv: "?Inv g"
    using assms shape_row_length [OF assms] by (simp add: shape_9x9_def)
  have step: "store_cell (Model m) i j s = (None, ?upd j s) \<and> ?Inv (?upd j s)"
    if "j \<in> set [1..9]" "?Inv s" for j s
  proof -
    have "nat (j - 1) < 9" using that(1) by auto
    then show ?thesis
      using that n assms(2) by (simp add: store_cell_Model)
  qed
  have "for_each (\<lambda>j. store_cell (Model m) i j) [1..9] g = (None, fold ?upd [1..9] g)"
    using step inv by (rule for_each_fold)
  moreover have "fold ?upd js s = s[?n := fold (\<lambda>j row. row[nat (j - 1) := ?f j]) js (s ! ?n)]"
    if "?n < length s" for js s
    using that by (induction js arbitrary: s) simp_all
  ultimately show ?thesis
    using inv n update_all_9 [of "g ! ?n" ?f] by (simp add: upto_1_9)
qed

lemma store_all_Model:
  assumes "shape_9x9 g"
  shows "for_each (\<lambda>i. for_each (\<lambda>j. store_cell (Model m) i j) (range_py 1 10)) (range_py 1 10) g =
    (None, decode_val (\<lambda>x. x \<in> set m))"
proof -
  let ?r = "\<lambda>i. map (\<lambda>j. List.find (\<lambda>d. v i j d \<in> set m) [1..9]) [1..9]"
  let ?upd = "\<lambda>i g. g[nat (i - 1) := ?r i]"
  have step: "for_each (\<lambda>j. store_cell (Model m) i j) [1..9] s = (None, ?upd i s) \<and> shape_9x9 (?upd i s)"
    if "i \<in> set [1..9]" "shape_9x9 s" for i s
  proof -
    have "shape_9x9 (?upd i s)"
      using that(2) unfolding shape_9x9_def by (auto dest: set_update_subset_insert [THEN subsetD])
    then show ?thesis
      using that by (simp add: store_row_Model)
  qed
  have "for_each (\<lambda>i. for_each (\<lambda>j. store_cell (Model m) i j) [1..9]) [1..9] g =
      (None, fold ?upd [1..9] g)"
    using step assms by (rule for_each_fold)
  moreover have "fold ?upd [1, 2, 3, 4, 5, 6, 7, 8, 9] g = map ?r [1, 2, 3, 4, 5, 6, 7, 8, 9]"
    using assms by (intro update_all_9) (simp add: shape_9x9_def)
  ultimately show ?thesis
    by (simp add: range_1_10_upto decode_val_def upto_1_9)
qed

lemma run_solver_eq: "run_solver S clauses = Some (S clauses)"
  by (simp add: run_solver_def single_solve_count_def range_py_def)

lemma solve_Model:
  assumes "shape_9x9 g" "- 82 \<le> n" "n < 82" "S (built_clauses @ clue_clauses g) = Model m"
  shows "solve S g n = (None, decode_val (\<lambda>x. x \<in> set m))"
  using assms
  by (simp add: solve_def instance_clauses_eq run_solver_eq store_all_Model)


lemma solve_no_list:
  assumes "shape_9x9 g" "- 82 \<le> n" "n < 82"
    and "S (built_clauses @ clue_clauses g) = UNSAT \<or> S (built_clauses @ clue_clauses g) = UNKNOWN"
  shows "solve S g n = (Some TypeError, g)"
proof -
  have "read_cell sol 1 1 = Inl TypeError" if "sol = UNSAT \<or> sol = UNKNOWN" for sol
    using that by (auto simp: read_cell_def range_1_10 py_in_def)
  then have "for_each (\<lambda>i. for_each (\<lambda>j. store_cell sol i j) (range_py 1 10)) (range_py 1 10) g =
      (Some TypeError, g)" if "sol = UNSAT \<or> sol = UNKNOWN" for sol
    using that by (simp add: range_1_10 store_cell_def)
  then show ?thesis
    using assms by (simp add: solve_def instance_clauses_eq run_solver_eq)
qed

lemma decode_list_valid:
  assumes "wf_grid g" "satisfies m (built_clauses @ clue_clauses g)"
  shows "valid_sudoku (decode_val (\<lambda>x. x \<in> set m))"
    and "keeps_clues g (decode_val (\<lambda>x. x \<in> set m))"
    and "\<forall>c \<in> set built_clauses. clause_true (\<lambda>x. x \<in> set m) c"
proof -
  show base: "\<forall>c \<in> set built_clauses. clause_true (\<lambda>x. x \<in> set m) c"
    using satisfies_clause_true [OF assms(2)] by simp
  have clues: "\<forall>c \<in> set (clue_clauses g). clause_true (\<lambda>x. x \<in> set m) c"
    using satisfies_clause_true [OF assms(2)] by simp
  show "valid_sudoku (decode_val (\<lambda>x. x \<in> set m))"
    using base by (rule valid_decode_val)
  show "keeps_clues g (decode_val (\<lambda>x. x \<in> set m))"
    using base clues assms(1) by (rule keeps_clues_decode_val)
qed

lemma keeps_one_clue: "keeps_clues one_clue_grid G \<Longrightarrow> G ! 0 ! 1 = Some 2"
  unfolding keeps_clues_def ball_upt_0_9
  by (simp add: one_clue_grid_def)

text \<open>
  C6: let the grid be a 9x9 grid of digits in 0..9 and let the solver answer the clause
  list of the grid with a list of literals that is a satisfying assignment of it (and let
  \<open>current_number\<close> index \<open>solve_time\<close>). Then \<open>solve\<close> returns normally and the grid it
  leaves is a completed Sudoku that keeps every nonzero cell of the grid it was given;
  every cell holds a digit \<open>d\<close> in 1..9, and \<open>d\<close> is the one digit whose variable for that
  cell is in the assignment. For the grid whose only clue is \<open>grid[0][1] = 2\<close>, the grid
  left has \<open>grid[0][1] = 2\<close>.
\<close>

theorem solve_decodes:
  assumes "wf_grid g" "- 82 \<le> n" "n < 82"
    and "instance_clauses g = Inr cs" "S cs = Model m" "satisfies m cs"
  shows "\<exists>g'. solve S g n = (None, g') \<and> valid_sudoku g' \<and> keeps_clues g g' \<and>
    (\<forall>x \<in> set all_cells. \<exists>d \<in> {1..9}. cell_at g' x = Some d \<and>
       (\<forall>d' \<in> {1..9}. v (fst x) (snd x) d' \<in> set m \<longleftrightarrow> d' = d)) \<and>
    (g = one_clue_grid \<longrightarrow> g' ! 0 ! 1 = Some 2)"
proof -
  have shape: "shape_9x9 g"
    using assms(1) by (simp add: wf_grid_def)
  have cs: "cs = built_clauses @ clue_clauses g"
    using assms(4) instance_clauses_eq [OF shape] by simp
  let ?g' = "decode_val (\<lambda>x. x \<in> set m)"
  have sat: "satisfies m (built_clauses @ clue_clauses g)"
    using assms(6) cs by simp
  note dv = decode_list_valid [OF assms(1) sat]
  have "solve S g n = (None, ?g')"
    using assms(5) cs by (intro solve_Model [OF shape assms(2,3)]) simp
  moreover have "\<exists>d \<in> {1..9}. cell_at ?g' x = Some d \<and>
      (\<forall>d' \<in> {1..9}. v (fst x) (snd x) d' \<in> set m \<longleftrightarrow> d' = d)" if "x \<in> set all_cells" for x
  proof -
    have x: "in_grid x" using that by (simp add: in_grid_all_cells)
    obtain d where d: "d \<in> {1..9}" "cell_at ?g' x = Some d"
      using decode_val_some [OF dv(3) x] by blast
    have "v (fst x) (snd x) d' \<in> set m \<longleftrightarrow> d' = d" if "d' \<in> {1..9}" for d'
      using decode_val_digit [OF dv(3) x, of d'] d(2) that by auto
    with d show ?thesis by blast
  qed
  moreover have "g = one_clue_grid \<longrightarrow> ?g' ! 0 ! 1 = Some 2"
    using dv(2) keeps_one_clue by blast
  ultimately show ?thesis
    using dv(1,2) by blast
qed

theorem solve_decodes_witness:
  "wf_grid one_clue_grid \<and>
   instance_clauses one_clue_grid = Inr (built_clauses @ [[11]]) \<and>
   satisfies (model_of_grid solved_grid) (built_clauses @ [[11]]) \<and>
   (\<exists>g'. solve (\<lambda>cs. Model (model_of_grid solved_grid)) one_clue_grid 0 = (None, g') \<and>
      valid_sudoku g' \<and> g' ! 0 ! 1 = Some 2)"
proof -
  have i: "instance_clauses one_clue_grid = Inr (built_clauses @ [[11]])"
    using instance_clauses_eq [OF shape_one_clue_grid]
    by (simp add: clue_clauses_one_clue_grid v_def)
  have s: "satisfies (model_of_grid solved_grid) (built_clauses @ [[11]])"
    using model_of_grid_satisfies [OF valid_solved_grid keeps_clues_solved_grid wf_one_clue_grid]
    by (simp add: clue_clauses_one_clue_grid v_def)
  have "\<exists>g'. solve (\<lambda>cs. Model (model_of_grid solved_grid)) one_clue_grid 0 = (None, g') \<and>
      valid_sudoku g' \<and> g' ! 0 ! 1 = Some 2"
    using solve_decodes [OF wf_one_clue_grid _ _ i _ s, of 0 "\<lambda>cs. Model (model_of_grid solved_grid)"]
    by auto
  with i s wf_one_clue_grid show ?thesis by blast
qed

section \<open>An unsatisfiable answer\<close>

lemma shape_clash_grid: "shape_9x9 clash_grid"
  by (simp add: shape_9x9_def clash_grid_def blank_row_def)

lemma clue_clauses_clash_grid: "clue_clauses clash_grid = [[v 1 1 5], [v 1 2 5]]"
  unfolding clue_clauses_def all_cells_list
  by (simp add: cell_at_def clash_grid_def blank_row_def truthy_def)

lemma clash_grid_unsat: "\<not> satisfiable (built_clauses @ clue_clauses clash_grid)"
proof
  assume "satisfiable (built_clauses @ clue_clauses clash_grid)"
  then obtain val where base: "\<forall>c \<in> set built_clauses. clause_true val c"
    and a: "clause_true val [v 1 1 5]" and b: "clause_true val [v 1 2 5]"
    unfolding satisfiable_def clue_clauses_clash_grid by auto
  have "val (v 1 1 5)" "val (v 1 2 5)"
    using a b by (simp_all add: clause_true_def lit_true_def v_def)
  moreover have "row_cells 1 \<in> set code_groups"
    by (simp add: set_code_groups)
  moreover have "(1, 1) \<in> set (row_cells 1)" "(1, 2) \<in> set (row_cells 1)"
    by (simp_all add: set_row_cells)
  ultimately show False
    using val_distinct [OF base, of "row_cells 1" "(1, 1)" "(1, 2)" 5] by simp
qed

text \<open>
  C7, as the claim states it, fails: the two clues of \<open>clash_grid\<close> contradict each other,
  its clause list is unsatisfiable, and on the answer \<open>"UNSAT"\<close> the call of \<open>solve\<close> ends
  in a \<open>TypeError\<close>, raised by the decoding it attempts.
\<close>

theorem solve_unsat_counterexample:
  "instance_clauses clash_grid = Inr (built_clauses @ [[5], [14]]) \<and>
   \<not> satisfiable (built_clauses @ [[5], [14]]) \<and>
   read_cell UNSAT 1 1 = Inl TypeError \<and>
   fst (solve (\<lambda>cs. UNSAT) clash_grid 0) = Some TypeError"
proof -
  have c: "clue_clauses clash_grid = [[5], [14]]"
    by (simp add: clue_clauses_clash_grid v_def)
  have "read_cell UNSAT 1 1 = Inl TypeError"
    by (simp add: read_cell_def range_1_10 py_in_def)
  moreover have "solve (\<lambda>cs. UNSAT) clash_grid 0 = (Some TypeError, clash_grid)"
    by (rule solve_no_list [OF shape_clash_grid]) simp_all
  ultimately show ?thesis
    using instance_clauses_eq [OF shape_clash_grid] clash_grid_unsat by (simp add: c)
qed

text \<open>
  C7, amended: when the solver answers the clause list of a 9x9 grid with \<open>"UNSAT"\<close> (or
  \<open>"UNKNOWN"\<close>), \<open>solve\<close> does attempt to decode; the first membership test of \<open>read_cell\<close>
  raises \<open>TypeError\<close>, which leaves \<open>solve\<close>, and no cell has been written: the caller's
  grid is as it was.
\<close>

theorem solve_unsat:
  assumes "shape_9x9 g" "- 82 \<le> n" "n < 82"
    and "instance_clauses g = Inr cs" "S cs = UNSAT \<or> S cs = UNKNOWN"
  shows "read_cell (S cs) 1 1 = Inl TypeError \<and> solve S g n = (Some TypeError, g)"
proof -
  have cs: "cs = built_clauses @ clue_clauses g"
    using assms(4) instance_clauses_eq [OF assms(1)] by simp
  have "read_cell (S cs) 1 1 = Inl TypeError"
    using assms(5) by (auto simp: read_cell_def range_1_10 py_in_def)
  moreover have "solve S g n = (Some TypeError, g)"
    using assms(5) unfolding cs by (rule solve_no_list [OF assms(1-3)])
  ultimately show ?thesis by simp
qed

theorem solve_unsat_witness:
  "shape_9x9 clash_grid \<and> instance_clauses clash_grid = Inr (built_clauses @ [[5], [14]]) \<and>
   solve (\<lambda>cs. UNSAT) clash_grid 0 = (Some TypeError, clash_grid)"
proof -
  have i: "instance_clauses clash_grid = Inr (built_clauses @ [[5], [14]])"
    using instance_clauses_eq [OF shape_clash_grid]
    by (simp add: clue_clauses_clash_grid v_def)
  show ?thesis
    using solve_unsat [OF shape_clash_grid _ _ i, of 0 "\<lambda>cs. UNSAT"] shape_clash_grid i
    by simp
qed


section \<open>An assignment that is no grid\<close>

lemma find_upto_least:
  "List.find P [a..b] = Some d \<longleftrightarrow> a \<le> d \<and> d \<le> b \<and> P d \<and> (\<forall>d'. a \<le> d' \<and> d' < d \<longrightarrow> \<not> P d')"
proof (induction a b rule: upto.induct)
  case (1 i j)
  show ?case
  proof (cases "i \<le> j")
    case False
    then show ?thesis by auto
  next
    case True
    then have u: "[i..j] = i # [i + 1..j]"
      by (simp add: upto_rec1)
    show ?thesis
    proof (cases "P i")
      case True
      have "i = d \<longleftrightarrow> i \<le> d \<and> d \<le> j \<and> P d \<and> (\<forall>d'. i \<le> d' \<and> d' < d \<longrightarrow> \<not> P d')"
        using True \<open>i \<le> j\<close> by (metis order.order_iff_strict order_refl not_less)
      then show ?thesis
        unfolding u using True by simp
    next
      case False
      have "(\<forall>d'. i + 1 \<le> d' \<and> d' < d \<longrightarrow> \<not> P d') \<longleftrightarrow> (\<forall>d'. i \<le> d' \<and> d' < d \<longrightarrow> \<not> P d')"
        using False by (metis add1_zle_eq order.order_iff_strict)
      moreover have "P d \<Longrightarrow> i + 1 \<le> d \<longleftrightarrow> i \<le> d"
        using False by (metis add1_zle_eq order.order_iff_strict)
      ultimately show ?thesis
        unfolding u using False 1 [OF True] by auto
    qed
  qed
qed

lemma find_upto_None: "List.find P [a..b] = None \<longleftrightarrow> (\<forall>d \<in> {a..b}. \<not> P d)"
  by (auto simp: find_None_iff)

lemma solved_grid_first_cell: "cell_at solved_grid (1, 1) = Some 1"
  by (simp add: cell_at_def solved_grid_def)

text \<open>
  C8, as the claim states it, fails: an assignment may assert the digits 1 and 9 for the
  first cell, and \<open>read_cell\<close> returns 1 with no signal, and \<open>solve\<close> returns normally; on
  an assignment that asserts no digit for the cell, \<open>read_cell\<close> returns \<open>None\<close>.
\<close>

theorem read_cell_counterexample:
  "v 1 1 1 \<in> set (9 # model_of_grid solved_grid) \<and>
   v 1 1 9 \<in> set (9 # model_of_grid solved_grid) \<and>
   read_cell (Model (9 # model_of_grid solved_grid)) 1 1 = Inr (Some 1) \<and>
   fst (solve (\<lambda>cs. Model (9 # model_of_grid solved_grid)) one_clue_grid 0) = None \<and>
   read_cell (Model []) 1 1 = Inr None"
proof -
  have a: "v 1 1 1 \<in> set (9 # model_of_grid solved_grid)"
    using model_of_grid_pos [of "(1, 1)" 1 solved_grid] solved_grid_first_cell
    by (simp add: in_grid_def)
  have b: "v 1 1 9 \<in> set (9 # model_of_grid solved_grid)"
    by (simp add: v_def)
  have c: "read_cell (Model (9 # model_of_grid solved_grid)) 1 1 = Inr (Some 1)"
    unfolding read_cell_Model upto_1_9 using a by simp
  have d: "solve (\<lambda>cs. Model (9 # model_of_grid solved_grid)) one_clue_grid 0 =
      (None, decode_val (\<lambda>x. x \<in> set (9 # model_of_grid solved_grid)))"
    by (rule solve_Model [OF shape_one_clue_grid]) simp_all
  have e: "read_cell (Model []) 1 1 = Inr None"
    unfolding read_cell_Model upto_1_9 by simp
  from a b c d e show ?thesis by simp
qed

text \<open>
  C8, amended: \<open>read_cell\<close> signals no defect. On a list of literals it returns the
  smallest digit in 1..9 whose variable for the cell is in the list, whether or not other
  digits are asserted too, and \<open>None\<close> when no digit is asserted. When the list asserts at
  least one digit for every cell, \<open>solve\<close> on a 9x9 grid returns normally and leaves in
  every cell the smallest digit asserted for it.
\<close>

theorem read_cell_first_digit:
  "(\<forall>d. read_cell (Model m) i j = Inr (Some d) \<longleftrightarrow>
      d \<in> {1..9} \<and> v i j d \<in> set m \<and> (\<forall>d' \<in> {1..9}. d' < d \<longrightarrow> v i j d' \<notin> set m)) \<and>
   (read_cell (Model m) i j = Inr None \<longleftrightarrow> (\<forall>d \<in> {1..9}. v i j d \<notin> set m)) \<and>
   (\<forall>e. read_cell (Model m) i j \<noteq> Inl e) \<and>
   (shape_9x9 g \<and> - 82 \<le> n \<and> n < 82 \<and> S (built_clauses @ clue_clauses g) = Model m \<and>
    (\<forall>x \<in> set all_cells. \<exists>d \<in> {1..9}. v (fst x) (snd x) d \<in> set m) \<longrightarrow>
    (\<exists>g'. solve S g n = (None, g') \<and>
      (\<forall>x \<in> set all_cells. \<exists>d \<in> {1..9}. cell_at g' x = Some d \<and> v (fst x) (snd x) d \<in> set m \<and>
         (\<forall>d' \<in> {1..9}. d' < d \<longrightarrow> v (fst x) (snd x) d' \<notin> set m))))"
proof (intro conjI allI impI)
  fix d
  show "read_cell (Model m) i j = Inr (Some d) \<longleftrightarrow>
      d \<in> {1..9} \<and> v i j d \<in> set m \<and> (\<forall>d' \<in> {1..9}. d' < d \<longrightarrow> v i j d' \<notin> set m)"
    unfolding read_cell_Model using find_upto_least [of "\<lambda>d. v i j d \<in> set m" 1 9 d]
    by auto
next
  show "read_cell (Model m) i j = Inr None \<longleftrightarrow> (\<forall>d \<in> {1..9}. v i j d \<notin> set m)"
    unfolding read_cell_Model by (simp add: find_upto_None)
next
  fix e show "read_cell (Model m) i j \<noteq> Inl e"
    by (simp add: read_cell_Model)
next
  assume a: "shape_9x9 g \<and> - 82 \<le> n \<and> n < 82 \<and> S (built_clauses @ clue_clauses g) = Model m \<and>
    (\<forall>x \<in> set all_cells. \<exists>d \<in> {1..9}. v (fst x) (snd x) d \<in> set m)"
  let ?g' = "decode_val (\<lambda>x. x \<in> set m)"
  have "solve S g n = (None, ?g')"
    using a by (intro solve_Model) simp_all
  moreover have "\<exists>d \<in> {1..9}. cell_at ?g' x = Some d \<and> v (fst x) (snd x) d \<in> set m \<and>
      (\<forall>d' \<in> {1..9}. d' < d \<longrightarrow> v (fst x) (snd x) d' \<notin> set m)" if "x \<in> set all_cells" for x
  proof -
    have x: "in_grid x" using that by (simp add: in_grid_all_cells)
    have "List.find (\<lambda>d. v (fst x) (snd x) d \<in> set m) [1..9] \<noteq> None"
      using a that unfolding find_upto_None by blast
    then obtain d where d: "List.find (\<lambda>d. v (fst x) (snd x) d \<in> set m) [1..9] = Some d"
      by blast
    then have "d \<in> {1..9} \<and> v (fst x) (snd x) d \<in> set m \<and>
        (\<forall>d' \<in> {1..9}. d' < d \<longrightarrow> v (fst x) (snd x) d' \<notin> set m)"
      using find_upto_least [of "\<lambda>d. v (fst x) (snd x) d \<in> set m" 1 9 d] by auto
    then show ?thesis
      using d cell_at_decode_val [OF x, of "\<lambda>x. x \<in> set m"] by auto
  qed
  ultimately show "\<exists>g'. solve S g n = (None, g') \<and>
      (\<forall>x \<in> set all_cells. \<exists>d \<in> {1..9}. cell_at g' x = Some d \<and> v (fst x) (snd x) d \<in> set m \<and>
         (\<forall>d' \<in> {1..9}. d' < d \<longrightarrow> v (fst x) (snd x) d' \<notin> set m))"
    by blast
qed

theorem read_cell_first_digit_witness:
  "v 1 1 9 \<in> set [9, 5] \<and> v 1 1 5 \<in> set [9, 5] \<and> read_cell (Model [9, 5]) 1 1 = Inr (Some 5) \<and>
   shape_9x9 one_clue_grid \<and>
   (\<exists>g'. solve (\<lambda>cs. Model (9 # model_of_grid solved_grid)) one_clue_grid 0 = (None, g') \<and>
      cell_at g' (1, 1) = Some 1)"
proof -
  let ?m = "9 # model_of_grid solved_grid"
  have "(5::int) \<in> {1..9} \<and> v 1 1 5 \<in> set [9, 5] \<and> (\<forall>d' \<in> {1..9}. d' < 5 \<longrightarrow> v 1 1 d' \<notin> set [9, 5])"
    by (auto simp: v_def)
  then have r: "read_cell (Model [9, 5]) 1 1 = Inr (Some 5)"
    using read_cell_first_digit [of "[9, 5]" 1 1] by blast
  have total: "\<exists>d \<in> {1..9}. v (fst x) (snd x) d \<in> set ?m" if "x \<in> set all_cells" for x
  proof -
    have x: "in_grid x" using that by (simp add: in_grid_all_cells)
    obtain d where "d \<in> {1..9}" "cell_at solved_grid x = Some d"
      using valid_cell_digit [OF valid_solved_grid x] by auto
    then show ?thesis
      using model_of_grid_pos [OF x, of d solved_grid] by auto
  qed
  have one: "v 1 1 1 \<in> set ?m"
    using model_of_grid_pos [of "(1, 1)" 1 solved_grid] solved_grid_first_cell
    by (simp add: in_grid_def)
  have "shape_9x9 one_clue_grid \<and> - 82 \<le> (0::int) \<and> (0::int) < 82 \<and>
      (\<lambda>cs. Model ?m) (built_clauses @ clue_clauses one_clue_grid) = Model ?m \<and>
      (\<forall>x \<in> set all_cells. \<exists>d \<in> {1..9}. v (fst x) (snd x) d \<in> set ?m)"
    using shape_one_clue_grid total by simp
  then obtain g' where g': "solve (\<lambda>cs. Model ?m) one_clue_grid 0 = (None, g')"
    and cells: "\<forall>x \<in> set all_cells. \<exists>d \<in> {1..9}. cell_at g' x = Some d \<and>
      v (fst x) (snd x) d \<in> set ?m \<and> (\<forall>d' \<in> {1..9}. d' < d \<longrightarrow> v (fst x) (snd x) d' \<notin> set ?m)"
    using read_cell_first_digit [of ?m 1 1 one_clue_grid 0 "\<lambda>cs. Model ?m"] by blast
  have "(1, 1) \<in> set all_cells"
    by (simp add: set_all_cells)
  then obtain d where d: "d \<in> {1..9}" "cell_at g' (1, 1) = Some d"
    "\<forall>d' \<in> {1..9}. d' < d \<longrightarrow> v 1 1 d' \<notin> set ?m"
    using cells by fastforce
  have "d = 1"
  proof (rule ccontr)
    assume "d \<noteq> 1"
    then have "(1::int) \<in> {1..9}" "1 < d" using d(1) by auto
    then show False using d(3) one by blast
  qed
  with d(2) g' r shape_one_clue_grid show ?thesis
    by (auto simp: v_def)
qed


section \<open>A cell that holds no digit\<close>

lemma shape_out_of_range_grid: "shape_9x9 out_of_range_grid"
  by (simp add: shape_9x9_def out_of_range_grid_def blank_row_def)

lemma clue_clauses_out_of_range_grid: "clue_clauses out_of_range_grid = [[v 1 1 11]]"
  unfolding clue_clauses_def all_cells_list
  by (simp add: cell_at_def out_of_range_grid_def blank_row_def truthy_def)

text \<open>
  C9, as the claim states it, fails: the first cell of \<open>out_of_range_grid\<close> holds 11; the
  clause list of the grid is built all the same (its unit clause is the variable of
  digit 2 in the second cell), the solver is called, and \<open>solve\<close> returns normally.
\<close>

theorem out_of_range_counterexample:
  "Some 11 \<in> set (out_of_range_grid ! 0) \<and> \<not> wf_grid out_of_range_grid \<and>
   instance_clauses out_of_range_grid = Inr (built_clauses @ [[v 1 2 2]]) \<and>
   solve (\<lambda>cs. Model (model_of_grid solved_grid)) out_of_range_grid 0 =
     (None, decode_val (\<lambda>x. x \<in> set (model_of_grid solved_grid)))"
proof -
  have a: "Some 11 \<in> set (out_of_range_grid ! 0)"
    by (simp add: out_of_range_grid_def)
  have "out_of_range_grid ! 0 \<in> set out_of_range_grid"
    by (simp add: out_of_range_grid_def)
  with a have b: "\<not> wf_grid out_of_range_grid"
    unfolding wf_grid_def by force
  have c: "instance_clauses out_of_range_grid = Inr (built_clauses @ [[v 1 2 2]])"
    using instance_clauses_eq [OF shape_out_of_range_grid]
    by (simp add: clue_clauses_out_of_range_grid v_def)
  have d: "solve (\<lambda>cs. Model (model_of_grid solved_grid)) out_of_range_grid 0 =
      (None, decode_val (\<lambda>x. x \<in> set (model_of_grid solved_grid)))"
    by (rule solve_Model [OF shape_out_of_range_grid]) simp_all
  from a b c d show ?thesis by simp
qed

lemma word_out_of_range_grid: "word_cells out_of_range_grid"
  by (simp add: word_cells_def out_of_range_grid_def blank_row_def)

lemma solved_model_total:
  assumes "x \<in> set all_cells"
  shows "\<exists>d \<in> {1..9}. v (fst x) (snd x) d \<in> set (model_of_grid solved_grid)"
proof -
  have x: "in_grid x" using assms by (simp add: in_grid_all_cells)
  obtain d where "d \<in> {1..9}" "cell_at solved_grid x = Some d"
    using valid_cell_digit [OF valid_solved_grid x] by auto
  then show ?thesis
    using model_of_grid_pos [OF x, of d solved_grid] by auto
qed

text \<open>
  C9, amended: \<open>solve\<close> checks no cell value. For every 9x9 grid of integers of magnitude
  at most \<open>2 ^ 30\<close>, digits or not, the clause list is built: the base clauses followed by
  the unit clause \<open>[81 * (i - 1) + 9 * (j - 1) + d]\<close> for every cell \<open>(i, j)\<close> holding
  \<open>d \<noteq> 0\<close>; and the solver is called on it. When the solver answers \<open>"UNSAT"\<close> or
  \<open>"UNKNOWN"\<close>, \<open>solve\<close> ends in the \<open>TypeError\<close> of the decoding with the grid unchanged; when
  it answers with a list that asserts a digit for every cell, \<open>solve\<close> returns normally.
\<close>

theorem no_range_check:
  assumes "shape_9x9 g" "word_cells g" "- 82 \<le> n" "n < 82"
  shows "instance_clauses g = Inr (built_clauses @ clue_clauses g) \<and>
    (\<forall>x \<in> set all_cells. \<forall>d. cell_at g x = Some d \<and> d \<noteq> 0 \<longrightarrow>
       [81 * (fst x - 1) + 9 * (snd x - 1) + d] \<in> set (clue_clauses g)) \<and>
    (S (built_clauses @ clue_clauses g) = UNSAT \<or> S (built_clauses @ clue_clauses g) = UNKNOWN \<longrightarrow>
       solve S g n = (Some TypeError, g)) \<and>
    (S (built_clauses @ clue_clauses g) = Model m \<and>
     (\<forall>x \<in> set all_cells. \<exists>d \<in> {1..9}. v (fst x) (snd x) d \<in> set m) \<longrightarrow>
       fst (solve S g n) = None)"
proof (intro conjI ballI allI impI)
  show "instance_clauses g = Inr (built_clauses @ clue_clauses g)"
    using assms(1) by (rule instance_clauses_eq)
next
  fix x d assume "x \<in> set all_cells" "cell_at g x = Some d \<and> d \<noteq> 0"
  then show "[81 * (fst x - 1) + 9 * (snd x - 1) + d] \<in> set (clue_clauses g)"
    using clue_clause_mem [of x g d] by (simp add: in_grid_all_cells v_def)
next
  assume "S (built_clauses @ clue_clauses g) = UNSAT \<or> S (built_clauses @ clue_clauses g) = UNKNOWN"
  then show "solve S g n = (Some TypeError, g)"
    by (rule solve_no_list [OF assms(1,3,4)])
next
  assume "S (built_clauses @ clue_clauses g) = Model m \<and>
    (\<forall>x \<in> set all_cells. \<exists>d \<in> {1..9}. v (fst x) (snd x) d \<in> set m)"
  then show "fst (solve S g n) = None"
    using solve_Model [OF assms(1,3,4), of S m] by simp
qed

theorem no_range_check_witness:
  "shape_9x9 out_of_range_grid \<and> word_cells out_of_range_grid \<and> (1, 1) \<in> set all_cells \<and>
   cell_at out_of_range_grid (1, 1) = Some 11 \<and>
   [11] \<in> set (clue_clauses out_of_range_grid) \<and>
   solve (\<lambda>cs. UNKNOWN) out_of_range_grid 81 = (Some TypeError, out_of_range_grid) \<and>
   fst (solve (\<lambda>cs. Model (model_of_grid solved_grid)) out_of_range_grid 81) = None"
proof -
  have a: "(1, 1) \<in> set all_cells"
    by (simp add: set_all_cells)
  have b: "cell_at out_of_range_grid (1, 1) = Some 11"
    by (simp add: cell_at_def out_of_range_grid_def)
  have n: "- 82 \<le> (81::int)" "(81::int) < 82"
    by simp_all
  note t = no_range_check [OF shape_out_of_range_grid word_out_of_range_grid n]
  have c: "[81 * (fst (1, 1) - 1) + 9 * (snd (1, 1) - 1) + 11] \<in> set (clue_clauses out_of_range_grid)"
    using t [THEN conjunct2, THEN conjunct1, THEN bspec, OF a, THEN spec, of 11] b
    by simp
  have d: "solve (\<lambda>cs. UNKNOWN) out_of_range_grid 81 = (Some TypeError, out_of_range_grid)"
    using t [of "\<lambda>cs. UNKNOWN"] by simp
  have "(\<lambda>cs. Model (model_of_grid solved_grid)) (built_clauses @ clue_clauses out_of_range_grid) =
      Model (model_of_grid solved_grid) \<and>
      (\<forall>x \<in> set all_cells. \<exists>d \<in> {1..9}. v (fst x) (snd x) d \<in> set (model_of_grid solved_grid))"
    using solved_model_total by simp
  then have e: "fst (solve (\<lambda>cs. Model (model_of_grid solved_grid)) out_of_range_grid 81) = None"
    using t [of "\<lambda>cs. Model (model_of_grid solved_grid)" "model_of_grid solved_grid"] by blast
  from a b c d e shape_out_of_range_grid word_out_of_range_grid show ?thesis
    by simp
qed

section \<open>is_proper\<close>

lemma clause_true_negation:
  assumes "0 \<notin> set sol"
  shows "clause_true val (map (\<lambda>x. - x) sol) \<longleftrightarrow> (\<exists>x \<in> set sol. \<not> lit_true val x)"
proof -
  have "lit_true val (- x) \<longleftrightarrow> \<not> lit_true val x" if "x \<in> set sol" for x
  proof -
    have "x \<noteq> 0" using that assms by auto
    then show ?thesis unfolding lit_true_def by auto
  qed
  then have "(\<exists>x \<in> set sol. lit_true val (- x)) \<longleftrightarrow> (\<exists>x \<in> set sol. \<not> lit_true val x)"
    by blast
  then show ?thesis
    unfolding clause_true_def by simp
qed

text \<open>
  C10: when the first call of the solver answers \<open>clauses\<close> with a list \<open>sol\<close>, \<open>is_proper\<close>
  appends to the caller's list the one clause that negates every literal of \<open>sol\<close>, leaves
  the rest of the list as it is, and returns \<open>True\<close> if and only if the solver's answer to
  the extended list is no list. When \<open>sol\<close> is a satisfying assignment of \<open>clauses\<close> and
  the second answer is right, this says that every satisfying valuation of \<open>clauses\<close>
  makes all literals of \<open>sol\<close> true: \<open>sol\<close> is the only model.
\<close>

theorem is_proper_appends_negation:
  assumes "S clauses = Model sol"
  shows "snd (is_proper S clauses) = clauses @ [map (\<lambda>x. - x) sol] \<and>
    fst (is_proper S clauses) =
      Inr (\<forall>sol'. S (clauses @ [map (\<lambda>x. - x) sol]) \<noteq> Model sol') \<and>
    (satisfies sol clauses \<and> answer_correct S (clauses @ [map (\<lambda>x. - x) sol]) \<longrightarrow>
       (fst (is_proper S clauses) = Inr True \<longleftrightarrow>
          (\<forall>val. (\<forall>c \<in> set clauses. clause_true val c) \<longrightarrow> (\<forall>x \<in> set sol. lit_true val x))))"
proof (intro conjI impI)
  let ?cs' = "clauses @ [map (\<lambda>x. - x) sol]"
  show "snd (is_proper S clauses) = ?cs'"
    using assms by (simp add: is_proper_def Let_def split: solution.split)
  show r: "fst (is_proper S clauses) = Inr (\<forall>sol'. S ?cs' \<noteq> Model sol')"
    using assms by (simp add: is_proper_def Let_def split: solution.split)
  assume a': "satisfies sol clauses \<and> answer_correct S ?cs'"
  then have "0 \<notin> set sol"
    unfolding satisfies_def consistent_def by force
  with a' have a: "0 \<notin> set sol \<and> answer_correct S ?cs'"
    by simp
  have "(\<forall>sol'. S ?cs' \<noteq> Model sol') \<longleftrightarrow> \<not> satisfiable ?cs'"
    using a satisfies_satisfiable [of _ ?cs']
    unfolding answer_correct_def by (cases "S ?cs'") auto
  also have "\<dots> \<longleftrightarrow> (\<forall>val. (\<forall>c \<in> set clauses. clause_true val c) \<longrightarrow> (\<forall>x \<in> set sol. lit_true val x))"
    using a unfolding satisfiable_def by (auto simp: clause_true_negation)
  finally show "fst (is_proper S clauses) = Inr True \<longleftrightarrow>
      (\<forall>val. (\<forall>c \<in> set clauses. clause_true val c) \<longrightarrow> (\<forall>x \<in> set sol. lit_true val x))"
    using r by simp
qed

theorem is_proper_appends_negation_witness:
  "(\<lambda>cs. if cs = [[1]] then Model [1] else UNSAT) [[1]] = Model [1] \<and>
   satisfies [1] [[1]] \<and>
   answer_correct (\<lambda>cs. if cs = [[1]] then Model [1] else UNSAT) [[1], [- 1]] \<and>
   is_proper (\<lambda>cs. if cs = [[1]] then Model [1] else UNSAT) [[1]] = (Inr True, [[1], [- 1]])"
proof -
  let ?S = "\<lambda>cs::clause list. if cs = [[1]] then Model [1] else UNSAT"
  have s: "?S [[1]] = Model [1]" by simp
  have "\<not> satisfiable [[1], [- 1]]"
    by (simp add: satisfiable_def clause_true_def lit_true_def)
  then have c: "answer_correct ?S [[1], [- 1]]"
    by (simp add: answer_correct_def)
  have m: "satisfies [1] [[1]]"
    by (simp add: satisfies_def consistent_def)
  have "snd (is_proper ?S [[1]]) = [[1], [- 1]]" "fst (is_proper ?S [[1]]) = Inr True"
    using is_proper_appends_negation [of ?S "[[1]]" "[1]"] by simp_all
  then have "is_proper ?S [[1]] = (Inr True, [[1], [- 1]])"
    by (simp add: prod_eq_iff)
  with s c m show ?thesis by simp
qed

end
